theory Spec2Isabelle
  imports Main "HOL-Library.Char_ord" "HOL-Library.List_Lexorder" "HOL-Library.AList"
begin

section \<open>Python values and library functions\<close>

text \<open>
  The renderer (\<^verbatim>\<open>aiven/client/pretty.py\<close>) and the configuration compiler
  (\<^verbatim>\<open>aiven/client/cli.py\<close>) work on decoded JSON documents. A Python \<^verbatim>\<open>dict\<close> is an
  association list in insertion order (its keys are distinct in Python), a \<^verbatim>\<open>str\<close> is a list
  of characters with code points below 256, an \<^verbatim>\<open>int\<close> is unbounded. A \<^verbatim>\<open>float\<close> is carried
  as the text of its \<^verbatim>\<open>repr\<close>, since the code prints floats and never computes with one.
  The \<^verbatim>\<open>datetime\<close> branch of \<^verbatim>\<open>format_item\<close> is not reachable from decoded JSON and is
  left out. The semantics is that of Python 3.11 with its default settings; there the
  conversions between \<^verbatim>\<open>int\<close> and decimal text stop at 4300 digits, so that an \<^verbatim>\<open>int\<close> of a
  decoded document has no more digits than that.
\<close>

datatype json =
    JNull
  | JBool bool
  | JInt int
  | JFloat string
  | JStr string
  | JList "json list"
  | JDict "(string \<times> json) list"

datatype error =
    UserError string
  | ValueError string
  | KeyError
  | TypeError
  | AttributeError
  | IndexError

fun is_dict :: "json \<Rightarrow> bool" where
  "is_dict (JDict kvs) = True"
| "is_dict v = False"

subsection \<open>Strings\<close>

text \<open>\<^verbatim>\<open>sep.join(xs)\<close>\<close>

fun join :: "'a list \<Rightarrow> 'a list list \<Rightarrow> 'a list" where
  "join sep [] = []"
| "join sep [x] = x"
| "join sep (x # y # ys) = x @ sep @ join sep (y # ys)"

text \<open>\<^verbatim>\<open>s.endswith(suf)\<close>, \<^verbatim>\<open>s.startswith(pre)\<close> and the substring test \<^verbatim>\<open>sub in s\<close>\<close>

definition endswith :: "string \<Rightarrow> string \<Rightarrow> bool" where
  "endswith s suf = (length suf \<le> length s \<and> drop (length s - length suf) s = suf)"

definition startswith :: "string \<Rightarrow> string \<Rightarrow> bool" where
  "startswith s pre = (take (length pre) s = pre)"

fun str_in :: "string \<Rightarrow> string \<Rightarrow> bool" where
  "str_in sub [] = (sub = [])"
| "str_in sub (c # cs) = (startswith (c # cs) sub \<or> str_in sub cs)"

text \<open>\<^verbatim>\<open>s.split(c, 1)\<close> and \<^verbatim>\<open>s.split(c)\<close> for a separator of one character\<close>

definition split_once :: "char \<Rightarrow> string \<Rightarrow> string list" where
  "split_once c s =
     (if c \<in> set s then [takeWhile (\<lambda>x. x \<noteq> c) s, tl (dropWhile (\<lambda>x. x \<noteq> c) s)] else [s])"

fun str_split :: "char \<Rightarrow> string \<Rightarrow> string list" where
  "str_split c [] = [[]]"
| "str_split c (x # xs) =
     (if x = c then [] # str_split c xs
      else (case str_split c xs of [] \<Rightarrow> [[x]] | p # ps \<Rightarrow> (x # p) # ps))"

text \<open>\<^verbatim>\<open>s.ljust(w)\<close>\<close>

definition ljust :: "string \<Rightarrow> nat \<Rightarrow> string" where
  "ljust s w = s @ replicate (w - length s) (CHR '' '')"

text \<open>
  \<^verbatim>\<open>s.upper()\<close>. Below 256 the letters with an upper case are \<^verbatim>\<open>a\<close> to \<^verbatim>\<open>z\<close> and the
  code points 224 to 254 other than the division sign 247, whose upper case is 32 below, the
  sharp s 223, whose upper case is the two letters \<^verbatim>\<open>SS\<close>, and the micro sign 181 and the
  y with diaeresis 255, whose upper case is a code point above 255. The last two have no
  image in the strings of the model and are left as they are.
\<close>

definition upper_char :: "char \<Rightarrow> string" where
  "upper_char c =
     (if (CHR ''a'' \<le> c \<and> c \<le> CHR ''z'') \<or> (CHR 0xE0 \<le> c \<and> c \<le> CHR 0xFE \<and> c \<noteq> CHR 0xF7)
      then [char_of (of_char c - (32::nat))]
      else if c = CHR 0xDF then ''SS''
      else [c])"

definition upper :: "string \<Rightarrow> string" where
  "upper s = concat (map upper_char s)"

text \<open>\<^verbatim>\<open>str(n)\<close> for an integer\<close>

definition digit_char :: "nat \<Rightarrow> char" where
  "digit_char d = ''0123456789abcdef'' ! d"

fun str_of_nat :: "nat \<Rightarrow> string" where
  "str_of_nat n = (if n < 10 then [digit_char n] else str_of_nat (n div 10) @ [digit_char (n mod 10)])"

declare str_of_nat.simps [simp del]

definition str_of_int :: "int \<Rightarrow> string" where
  "str_of_int i = (if i < 0 then CHR ''-'' # str_of_nat (nat (- i)) else str_of_nat (nat i))"

subsection \<open>\<^verbatim>\<open>json.dumps\<close>\<close>

text \<open>
  The encoder with \<^verbatim>\<open>ensure_ascii\<close>: the quote and the backslash are escaped, the five
  control characters with a short form use it, every other character outside the range
  from space to tilde is written as a four-digit hexadecimal escape.
\<close>

definition json_escape :: "char \<Rightarrow> string" where
  "json_escape c =
     (if c = CHR 0x22 then [CHR 0x5C, CHR 0x22]
      else if c = CHR 0x5C then [CHR 0x5C, CHR 0x5C]
      else if c = CHR 0x0A then [CHR 0x5C, CHR ''n'']
      else if c = CHR 0x0D then [CHR 0x5C, CHR ''r'']
      else if c = CHR 0x09 then [CHR 0x5C, CHR ''t'']
      else if c = CHR 0x08 then [CHR 0x5C, CHR ''b'']
      else if c = CHR 0x0C then [CHR 0x5C, CHR ''f'']
      else if CHR '' '' \<le> c \<and> c \<le> CHR ''~'' then [c]
      else [CHR 0x5C, CHR ''u'', CHR ''0'', CHR ''0'',
            digit_char (of_char c div 16), digit_char (of_char c mod 16)])"

definition quoted :: "string \<Rightarrow> string" where
  "quoted s = [CHR 0x22] @ s @ [CHR 0x22]"

definition json_dumps_str :: "string \<Rightarrow> string" where
  "json_dumps_str s = quoted (concat (map json_escape s))"

lemma size_json_member:
  "(k, v) \<in> set kvs \<Longrightarrow> size v < Suc (size_list (size_prod (\<lambda>_. 0) size) kvs)"
  by (induction kvs) auto

function json_dumps :: "bool \<Rightarrow> json \<Rightarrow> string" where
  "json_dumps sort_keys JNull = ''null''"
| "json_dumps sort_keys (JBool b) = (if b then ''true'' else ''false'')"
| "json_dumps sort_keys (JInt i) = str_of_int i"
| "json_dumps sort_keys (JFloat t) =
     (if t = ''nan'' then ''NaN'' else if t = ''inf'' then ''Infinity''
      else if t = ''-inf'' then ''-Infinity'' else t)"
| "json_dumps sort_keys (JStr s) = json_dumps_str s"
| "json_dumps sort_keys (JList vs) =
     ''['' @ join '', '' (map (json_dumps sort_keys) vs) @ '']''"
| "json_dumps sort_keys (JDict kvs) =
     ''{'' @ join '', ''
        (map (\<lambda>kv. json_dumps_str (fst kv) @ '': '' @ json_dumps sort_keys (snd kv))
          (if sort_keys then sort_key fst kvs else kvs)) @ ''}''"
  by pat_completeness auto
termination
proof (relation "measure (\<lambda>(s, v). size v)", goal_cases)
  case 1
  show ?case by simp
next
  case (2 sort_keys vs x)
  then show ?case by (induction vs) auto
next
  case (3 sort_keys kvs x)
  then have "x \<in> set kvs" by (auto split: if_splits)
  then have "(fst x, snd x) \<in> set kvs" by simp
  from size_json_member [OF this] show ?case by simp
qed

section \<open>The renderer\<close>

subsection \<open>\<^verbatim>\<open>format_item\<close> and \<^verbatim>\<open>print_list\<close>\<close>

text \<open>
  The key is \<^verbatim>\<open>None\<close> or a string; \<^verbatim>\<open>if key and ...\<close> asks for a non-empty string.
  \<^verbatim>\<open>value.split(".", 1)[0]\<close> is the first part of the split.
\<close>

definition drop_microseconds :: "string option \<Rightarrow> string \<Rightarrow> string" where
  "drop_microseconds key v =
     (case key of
        None \<Rightarrow> v
      | Some k \<Rightarrow>
          if k \<noteq> [] \<and> endswith k ''_time'' \<and> endswith v ''Z'' \<and> str_in ''.'' v
          then hd (split_once (CHR ''.'') v) @ ''Z''
          else v)"

fun format_item :: "string option \<Rightarrow> json \<Rightarrow> string" where
  "format_item key (JList vs) = join '', '' (map (format_item None) vs)"
| "format_item key (JDict kvs) = json_dumps True (JDict kvs)"
| "format_item key (JStr v) =
     (let v' = drop_microseconds key v;
          json_v = json_dumps False (JStr v')
      in if json_v = quoted v' then v' else json_v)"
| "format_item key v = json_dumps False v"

text \<open>\<^verbatim>\<open>print_list\<close> prints one line per item; the model returns the lines.\<close>

definition print_list :: "json list \<Rightarrow> string list" where
  "print_list result = map (format_item None) result"

subsection \<open>\<^verbatim>\<open>print_table\<close>\<close>

type_synonym row = "(string \<times> string) list"
type_synonym widths = "(string \<times> nat) list"

text \<open>
  The nested generator \<^verbatim>\<open>iter_values\<close>: a value that is not a mapping is one field, a
  mapping contributes the fields of its entries under the dotted key, in the order of its items.
\<close>

function (sequential) iter_values :: "string \<Rightarrow> json \<Rightarrow> (string \<times> json) list" where
  "iter_values key (JDict kvs) =
     concat (map (\<lambda>kv. iter_values ((if key \<noteq> [] then key @ ''.'' else []) @ fst kv) (snd kv)) kvs)"
| "iter_values key v = [(key, v)]"
  by pat_completeness auto
termination
proof (relation "measure (\<lambda>(k, v). size v)", goal_cases)
  case 1
  show ?case by simp
next
  case (2 key kvs x)
  then have "(fst x, snd x) \<in> set kvs" by simp
  from size_json_member [OF this] show ?case by simp
qed

text \<open>
  The body of the innermost loop: the formatted value is stored in the row and the width of the
  column becomes the largest of the name, the value and the width so far (1 when there is none).
\<close>

definition format_field :: "string \<times> json \<Rightarrow> row \<times> widths \<Rightarrow> row \<times> widths" where
  "format_field kv st =
     (case kv of (subkey, subvalue) \<Rightarrow>
      case st of (formatted_row, widths) \<Rightarrow>
        let cell = format_item (Some subkey) subvalue
        in (AList.update subkey cell formatted_row,
            AList.update subkey
              (max (length subkey)
                (max (length cell) (case map_of widths subkey of None \<Rightarrow> 1 | Some w \<Rightarrow> w)))
              widths))"

text \<open>
  One round of the outer loop. \<^verbatim>\<open>item.items()\<close> raises \<^verbatim>\<open>AttributeError\<close> on an item that
  is not a mapping. Only the keys of the record itself are compared with \<^verbatim>\<open>drop_fields\<close>.
\<close>

definition format_record :: "string list \<Rightarrow> widths \<Rightarrow> json \<Rightarrow> error + row \<times> widths" where
  "format_record drop_fields widths item =
     (case item of
        JDict kvs \<Rightarrow>
          Inr (fold (\<lambda>kv st. if fst kv \<in> set drop_fields then st
                              else fold format_field (iter_values (fst kv) (snd kv)) st)
                 kvs ([], widths))
      | _ \<Rightarrow> Inl AttributeError)"

fun format_all :: "string list \<Rightarrow> json list \<Rightarrow> widths \<Rightarrow> row list \<Rightarrow> error + widths \<times> row list" where
  "format_all drop_fields [] widths formatted_values = Inr (widths, formatted_values)"
| "format_all drop_fields (item # rest) widths formatted_values =
     (case format_record drop_fields widths item of
        Inl e \<Rightarrow> Inl e
      | Inr (formatted_row, widths') \<Rightarrow>
          format_all drop_fields rest widths' (formatted_values @ [formatted_row]))"

text \<open>
  A layout as the commands pass it: a flat list of field names, or a list whose first element
  is the list of the column names and whose other elements are patterns for the detail lines.
  \<^verbatim>\<open>table_layout[0]\<close> raises \<^verbatim>\<open>IndexError\<close> on the empty list, also on the empty default
  \<^verbatim>\<open>sorted(widths)\<close>. The result is the pair of \<^verbatim>\<open>horizontal_fields\<close> and
  \<^verbatim>\<open>table_layout[1:]\<close>.
\<close>

datatype layout = Flat "string list" | Rows "string list" "string list"

definition resolve_layout :: "widths \<Rightarrow> layout option \<Rightarrow> error + string list \<times> string list" where
  "resolve_layout widths table_layout =
     (case (case table_layout of None \<Rightarrow> Flat (sort (map fst widths)) | Some l \<Rightarrow> l) of
        Flat [] \<Rightarrow> Inl IndexError
      | Flat (f # fs) \<Rightarrow> Inr (f # fs, [])
      | Rows hs vs \<Rightarrow> Inr (hs, vs))"

text \<open>\<^verbatim>\<open>f.split(".", 1)[-1]\<close>: the name after its first dot.\<close>

definition deprefix :: "string \<Rightarrow> string" where
  "deprefix f = last (split_once (CHR ''.'') f)"

text \<open>
  \<^verbatim>\<open>longest\<close> is a closure over the variable \<^verbatim>\<open>formatted_row\<close> of \<^verbatim>\<open>print_table\<close>; the row
  it reads is a parameter here. \<^verbatim>\<open>fnmatch.fnmatch\<close> is a parameter of the model, applied to
  the name and the pattern.
\<close>

definition longest :: "(string \<Rightarrow> string \<Rightarrow> bool) \<Rightarrow> row \<Rightarrow> string \<Rightarrow> nat" where
  "longest fnmatch formatted_row vf =
     (let lengths = map (\<lambda>f. length (deprefix f)) (filter (\<lambda>f. fnmatch f vf) (map fst formatted_row))
      in if lengths = [] then 0 else Max (set lengths))"

fun map_err :: "('a \<Rightarrow> error + 'b) \<Rightarrow> 'a list \<Rightarrow> error + 'b list" where
  "map_err f [] = Inr []"
| "map_err f (x # xs) =
     (case f x of
        Inl e \<Rightarrow> Inl e
      | Inr y \<Rightarrow> (case map_err f xs of Inl e \<Rightarrow> Inl e | Inr ys \<Rightarrow> Inr (y # ys)))"

text \<open>
  \<^verbatim>\<open>widths[f]\<close> for each column, which raises \<^verbatim>\<open>KeyError\<close> for a name that no record has.
  The header line is built before anything is printed, and the later lines look up the same
  names in the same dictionary, so the widths are read once.
\<close>

definition column_widths :: "widths \<Rightarrow> string list \<Rightarrow> error + (string \<times> nat) list" where
  "column_widths widths horizontal_fields =
     map_err (\<lambda>f. case map_of widths f of None \<Rightarrow> Inl KeyError | Some w \<Rightarrow> Inr (f, w))
       horizontal_fields"

definition header_line :: "(string \<times> nat) list \<Rightarrow> string" where
  "header_line cols = join ''  '' (map (\<lambda>(f, w). ljust (upper f) w) cols)"

definition separator_line :: "(string \<times> nat) list \<Rightarrow> string" where
  "separator_line cols = join ''  '' (map (\<lambda>(f, w). replicate w (CHR ''='')) cols)"

text \<open>\<^verbatim>\<open>formatted_row.get(f, "").ljust(widths[f])\<close>\<close>

definition cell :: "row \<Rightarrow> string \<times> nat \<Rightarrow> string" where
  "cell formatted_row col =
     ljust (case map_of formatted_row (fst col) of None \<Rightarrow> [] | Some v \<Rightarrow> v) (snd col)"

definition data_line :: "(string \<times> nat) list \<Rightarrow> row \<Rightarrow> string" where
  "data_line cols formatted_row = join ''  '' (map (cell formatted_row) cols)"

text \<open>
  The detail lines of one record. With width 0 the format specification is the single
  character \<^verbatim>\<open>0\<close>, a fill flag without a width, and the name is printed unpadded.
\<close>

definition vertical_lines :: "(string \<Rightarrow> string \<Rightarrow> bool) \<Rightarrow> string list \<Rightarrow> nat \<Rightarrow> row \<Rightarrow> string list" where
  "vertical_lines fnmatch vertical_fields vertical_width formatted_row =
     concat (map (\<lambda>vertical_field.
        map (\<lambda>(key, v). ''    '' @ ljust (deprefix key) vertical_width @ '' = '' @ v)
          (filter (\<lambda>(key, v). fnmatch key vertical_field) (sort_key fst formatted_row)))
        vertical_fields)"

fun print_rows :: "(string \<Rightarrow> string \<Rightarrow> bool) \<Rightarrow> (string \<times> nat) list \<Rightarrow> string list \<Rightarrow> nat
    \<Rightarrow> nat \<Rightarrow> row list \<Rightarrow> string list" where
  "print_rows fnmatch cols vertical_fields vertical_width row_num [] = []"
| "print_rows fnmatch cols vertical_fields vertical_width row_num (formatted_row # rest) =
     (if vertical_fields \<noteq> [] \<and> row_num > 0 then [[]] else [])
     @ [data_line cols formatted_row]
     @ vertical_lines fnmatch vertical_fields vertical_width formatted_row
     @ print_rows fnmatch cols vertical_fields vertical_width (Suc row_num) rest"

text \<open>
  \<^verbatim>\<open>print_table\<close> returns the printed lines, or the exception. Every exception is raised
  before the first line is printed. \<^verbatim>\<open>drop_fields\<close> is a list (\<^verbatim>\<open>None\<close> is the empty list).
  When \<^verbatim>\<open>vertical_width\<close> is computed, \<^verbatim>\<open>formatted_row\<close> is the row of the last record.
\<close>

definition print_table :: "(string \<Rightarrow> string \<Rightarrow> bool) \<Rightarrow> json list \<Rightarrow> string list \<Rightarrow> layout option
    \<Rightarrow> error + string list" where
  "print_table fnmatch result drop_fields table_layout =
     (case result of
        [] \<Rightarrow> Inr []
      | first # _ \<Rightarrow>
          if \<not> is_dict first then Inr (print_list result)
          else
            (case format_all drop_fields result [] [] of
               Inl e \<Rightarrow> Inl e
             | Inr (widths, formatted_values) \<Rightarrow>
                 (case resolve_layout widths table_layout of
                    Inl e \<Rightarrow> Inl e
                  | Inr (horizontal_fields, vertical_fields) \<Rightarrow>
                      let vertical_width =
                            (if vertical_fields \<noteq> []
                             then Max (set (map (longest fnmatch (last formatted_values)) vertical_fields))
                             else 0)
                      in (case column_widths widths horizontal_fields of
                            Inl e \<Rightarrow> Inl e
                          | Inr cols \<Rightarrow>
                              Inr ([header_line cols, separator_line cols]
                                   @ print_rows fnmatch cols vertical_fields vertical_width 0
                                       formatted_values)))))"

text \<open>
  A matcher for the patterns made of literal characters, \<^verbatim>\<open>*\<close> and \<^verbatim>\<open>?\<close>, used where a
  concrete \<^verbatim>\<open>fnmatch\<close> is needed.
\<close>

fun glob :: "string \<Rightarrow> string \<Rightarrow> bool" where
  "glob [] [] = True"
| "glob (c # cs) [] = False"
| "glob [] (p # ps) = (p = CHR ''*'' \<and> glob [] ps)"
| "glob (c # cs) (p # ps) =
     (if p = CHR ''*'' then glob (c # cs) ps \<or> glob cs (p # ps)
      else (p = CHR ''?'' \<or> p = c) \<and> glob cs ps)"

section \<open>The configuration compiler\<close>

subsection \<open>Library functions\<close>

text \<open>
  \<^verbatim>\<open>repr\<close> of a string: single quotes unless the string has a single quote and no double
  quote; the quote in use and the backslash are escaped, tab, newline and carriage return have
  their short forms, and a character that is not printable is a two-digit hexadecimal escape.
\<close>

definition repr_char :: "char \<Rightarrow> char \<Rightarrow> string" where
  "repr_char q c =
     (if c = q \<or> c = CHR 0x5C then [CHR 0x5C, c]
      else if c = CHR 0x09 then [CHR 0x5C, CHR ''t'']
      else if c = CHR 0x0A then [CHR 0x5C, CHR ''n'']
      else if c = CHR 0x0D then [CHR 0x5C, CHR ''r'']
      else if (CHR '' '' \<le> c \<and> c \<le> CHR ''~'') \<or> (CHR 0xA1 \<le> c \<and> c \<noteq> CHR 0xAD) then [c]
      else [CHR 0x5C, CHR ''x'', digit_char (of_char c div 16), digit_char (of_char c mod 16)])"

definition py_repr :: "string \<Rightarrow> string" where
  "py_repr s =
     (let q = (if CHR 0x27 \<in> set s \<and> CHR 0x22 \<notin> set s then CHR 0x22 else CHR 0x27)
      in [q] @ concat (map (repr_char q) s) @ [q])"

text \<open>\<^verbatim>\<open>repr\<close> of a decoded JSON value, as \<^verbatim>\<open>{!r}\<close> prints the type of an option.\<close>

function repr_json :: "json \<Rightarrow> string" where
  "repr_json JNull = ''None''"
| "repr_json (JBool b) = (if b then ''True'' else ''False'')"
| "repr_json (JInt i) = str_of_int i"
| "repr_json (JFloat t) = t"
| "repr_json (JStr s) = py_repr s"
| "repr_json (JList vs) = ''['' @ join '', '' (map repr_json vs) @ '']''"
| "repr_json (JDict kvs) =
     ''{'' @ join '', '' (map (\<lambda>kv. py_repr (fst kv) @ '': '' @ repr_json (snd kv)) kvs) @ ''}''"
  by pat_completeness auto
termination
proof (relation "measure size", goal_cases)
  case 1
  show ?case by simp
next
  case (2 vs x)
  then show ?case by (induction vs) auto
next
  case (3 kvs x)
  then have "(fst x, snd x) \<in> set kvs" by simp
  from size_json_member [OF this] show ?case by simp
qed

text \<open>
  \<^verbatim>\<open>int(s, 0)\<close>. White space around the literal is skipped, a sign may come first, the
  prefixes \<^verbatim>\<open>0x\<close>, \<^verbatim>\<open>0o\<close> and \<^verbatim>\<open>0b\<close> (in either case) choose the base, one underscore may
  follow the prefix and single underscores may separate digits, a decimal literal that
  starts with \<^verbatim>\<open>0\<close> must be zero, and a decimal literal has at most 4300 digits. Among the
  characters below 127 the white space is tab, line feed, vertical tab, form feed, carriage
  return and space; the code points 133 and 160 are read as a space. The message of the
  \<^verbatim>\<open>ValueError\<close> for an invalid literal shows at most 200 characters of the \<^verbatim>\<open>repr\<close> of the
  string.
\<close>

datatype int_error = InvalidLiteral | ExceedsLimit nat

definition is_space :: "char \<Rightarrow> bool" where
  "is_space c = (of_char c \<in> {9, 10, 11, 12, 13, 32, 133, 160 :: nat})"

definition is_digit :: "char \<Rightarrow> bool" where
  "is_digit c = (CHR ''0'' \<le> c \<and> c \<le> CHR ''9'')"

definition digit_value :: "char \<Rightarrow> nat" where
  "digit_value c =
     (if CHR ''0'' \<le> c \<and> c \<le> CHR ''9'' then of_char c - 48
      else if CHR ''a'' \<le> c \<and> c \<le> CHR ''z'' then of_char c - 87
      else if CHR ''A'' \<le> c \<and> c \<le> CHR ''Z'' then of_char c - 55
      else 37)"

definition digits_value :: "nat \<Rightarrow> string \<Rightarrow> nat" where
  "digits_value base ds = fold (\<lambda>c acc. acc * base + digit_value c) ds 0"

fun underscores_ok :: "string \<Rightarrow> bool" where
  "underscores_ok [] = True"
| "underscores_ok [c] = (c \<noteq> CHR ''_'')"
| "underscores_ok (c # d # cs) = (\<not> (c = CHR ''_'' \<and> d = CHR ''_'') \<and> underscores_ok (d # cs))"

definition int_base :: "string \<Rightarrow> nat \<times> bool" where
  "int_base s =
     (case s of
        [] \<Rightarrow> (10, False)
      | c # cs \<Rightarrow>
          if c \<noteq> CHR ''0'' then (10, False)
          else (case cs of
                  [] \<Rightarrow> (10, True)
                | d # _ \<Rightarrow>
                    if d = CHR ''x'' \<or> d = CHR ''X'' then (16, False)
                    else if d = CHR ''o'' \<or> d = CHR ''O'' then (8, False)
                    else if d = CHR ''b'' \<or> d = CHR ''B'' then (2, False)
                    else (10, True)))"

text \<open>
  The digits after the prefix: the longest run of digits of the base and underscores, which
  must start with a digit, have no two underscores in a row and not end with one; only
  white space may follow it. The limit on the number of digits holds for the bases that are
  not a power of two, which is base 10 here, and is checked after the underscores and before
  the rest.
\<close>

definition scan_digits :: "nat \<Rightarrow> bool \<Rightarrow> string \<Rightarrow> int_error + nat" where
  "scan_digits base error_if_nonzero s =
     (let run = takeWhile (\<lambda>c. digit_value c < base \<or> c = CHR ''_'') s;
          rest = dropWhile (\<lambda>c. digit_value c < base \<or> c = CHR ''_'') s;
          digits = filter (\<lambda>c. c \<noteq> CHR ''_'') run;
          n = digits_value base digits
      in if run = [] \<or> hd run = CHR ''_'' \<or> \<not> underscores_ok run then Inl InvalidLiteral
         else if base = 10 \<and> 4300 < length digits then Inl (ExceedsLimit (length digits))
         else if error_if_nonzero \<and> n \<noteq> 0 then Inl InvalidLiteral
         else if dropWhile is_space rest \<noteq> [] then Inl InvalidLiteral
         else Inr n)"

definition skip_prefix :: "nat \<Rightarrow> string \<Rightarrow> string" where
  "skip_prefix base s =
     (if base \<noteq> 10
      then (let s3 = drop 2 s in if s3 \<noteq> [] \<and> hd s3 = CHR ''_'' then tl s3 else s3)
      else s)"

definition int_unsigned :: "string \<Rightarrow> int_error + nat" where
  "int_unsigned s =
     scan_digits (fst (int_base s)) (snd (int_base s)) (skip_prefix (fst (int_base s)) s)"

definition int_literal :: "string \<Rightarrow> int_error + int" where
  "int_literal s =
     (let s1 = dropWhile is_space s
      in if s1 \<noteq> [] \<and> hd s1 = CHR ''-''
         then (case int_unsigned (tl s1) of Inl e \<Rightarrow> Inl e | Inr n \<Rightarrow> Inr (- int n))
         else if s1 \<noteq> [] \<and> hd s1 = CHR ''+''
         then (case int_unsigned (tl s1) of Inl e \<Rightarrow> Inl e | Inr n \<Rightarrow> Inr (int n))
         else (case int_unsigned s1 of Inl e \<Rightarrow> Inl e | Inr n \<Rightarrow> Inr (int n)))"

definition int_error_message :: "string \<Rightarrow> int_error \<Rightarrow> string" where
  "int_error_message s e =
     (case e of
        InvalidLiteral \<Rightarrow> ''invalid literal for int() with base 0: '' @ take 200 (py_repr s)
      | ExceedsLimit d \<Rightarrow>
          ''Exceeds the limit (4300 digits) for integer string conversion: value has ''
          @ str_of_nat d @ '' digits; use sys.set_int_max_str_digits() to increase the limit'')"

definition py_int0 :: "string \<Rightarrow> error + int" where
  "py_int0 s =
     (case int_literal s of
        Inl e \<Rightarrow> Inl (ValueError (int_error_message s e))
      | Inr i \<Rightarrow> Inr i)"

subsection \<open>\<^verbatim>\<open>convert_str_to_value\<close>\<close>

text \<open>\<^verbatim>\<open>obj[key]\<close> for a string key, and \<^verbatim>\<open>s in t\<close> for a string \<^verbatim>\<open>s\<close> and a decoded value \<^verbatim>\<open>t\<close>.\<close>

definition subscript :: "json \<Rightarrow> string \<Rightarrow> error + json" where
  "subscript obj k =
     (case obj of
        JDict kvs \<Rightarrow> (case map_of kvs k of None \<Rightarrow> Inl KeyError | Some v \<Rightarrow> Inr v)
      | _ \<Rightarrow> Inl TypeError)"

definition py_in :: "string \<Rightarrow> json \<Rightarrow> error + bool" where
  "py_in s t =
     (case t of
        JStr u \<Rightarrow> Inr (str_in s u)
      | JList vs \<Rightarrow> Inr (JStr s \<in> set vs)
      | JDict kvs \<Rightarrow> Inr (s \<in> set (map fst kvs))
      | _ \<Rightarrow> Inl TypeError)"

definition boolean_tokens :: "(string \<times> bool) list" where
  "boolean_tokens = [(''1'', True), (''0'', False), (''true'', True), (''false'', False)]"

lemma size_subscript: "subscript obj k = Inr v \<Longrightarrow> size v < size obj"
  by (cases obj) (auto simp: subscript_def split: option.splits dest!: map_of_SomeD size_json_member)

text \<open>
  \<^verbatim>\<open>float\<close> is the parameter \<^verbatim>\<open>py_float\<close>: the message of its \<^verbatim>\<open>ValueError\<close>, or the float.
\<close>

function convert_str_to_value :: "(string \<Rightarrow> string + string) \<Rightarrow> json \<Rightarrow> string \<Rightarrow> error + json" where
  "convert_str_to_value py_float schema str_value =
     (case subscript schema ''type'' of
        Inl e \<Rightarrow> Inl e
      | Inr ty \<Rightarrow>
     (case py_in ''string'' ty of
        Inl e \<Rightarrow> Inl e
      | Inr is_string \<Rightarrow>
     if is_string then Inr (JStr str_value)
     else if py_in ''integer'' ty = Inr True then
       (case py_int0 str_value of Inl e \<Rightarrow> Inl e | Inr i \<Rightarrow> Inr (JInt i))
     else if py_in ''number'' ty = Inr True then
       (case py_float str_value of Inl msg \<Rightarrow> Inl (ValueError msg) | Inr x \<Rightarrow> Inr (JFloat x))
     else if py_in ''boolean'' ty = Inr True then
       (case map_of boolean_tokens str_value of
          Some b \<Rightarrow> Inr (JBool b)
        | None \<Rightarrow>
            Inl (UserError (''Invalid boolean value '' @ py_repr str_value @ '': expected one of ''
                            @ join '', '' (map fst boolean_tokens))))
     else if py_in ''array'' ty = Inr True then
       (case subscript schema ''items'' of
          Inl e \<Rightarrow> Inl e
        | Inr items \<Rightarrow>
            (case map_err (convert_str_to_value py_float items) (str_split (CHR '','') str_value) of
               Inl e \<Rightarrow> Inl e
             | Inr vs \<Rightarrow> Inr (JList vs)))
     else Inl (UserError (''Supported for option value type(s) '' @ repr_json ty
                          @ '' is unimplemented''))))"
  by pat_completeness auto
termination
  by (relation "measure (\<lambda>(f, schema, s). size schema)") (auto dest: size_subscript)

declare convert_str_to_value.simps [simp del]

subsection \<open>\<^verbatim>\<open>collect_user_config_options\<close>\<close>

text \<open>
  \<^verbatim>\<open>obj.get(k, default)\<close> and \<^verbatim>\<open>obj.items()\<close> raise \<^verbatim>\<open>AttributeError\<close> on a value that is
  not a mapping; \<^verbatim>\<open>opts.update(other)\<close> stores the entries of \<^verbatim>\<open>other\<close> in their order.
\<close>

definition dict_get :: "json \<Rightarrow> string \<Rightarrow> json \<Rightarrow> error + json" where
  "dict_get obj k d =
     (case obj of
        JDict kvs \<Rightarrow> Inr (case map_of kvs k of None \<Rightarrow> d | Some v \<Rightarrow> v)
      | _ \<Rightarrow> Inl AttributeError)"

definition dict_items :: "json \<Rightarrow> error + (string \<times> json) list" where
  "dict_items obj = (case obj of JDict kvs \<Rightarrow> Inr kvs | _ \<Rightarrow> Inl AttributeError)"

definition dict_update :: "('k \<times> 'v) list \<Rightarrow> ('k \<times> 'v) list \<Rightarrow> ('k \<times> 'v) list" where
  "dict_update other opts = fold (\<lambda>kv. AList.update (fst kv) (snd kv)) other opts"

text \<open>
  \<^verbatim>\<open>sorted\<close> on the values of \<^verbatim>\<open>patternProperties\<close>. No comparison is made on a list of at
  most one value. On a longer list every value is compared with another one, and a mapping
  does not support \<^verbatim>\<open>\<less>\<close>: \<^verbatim>\<open>TypeError\<close>. When the sort of a longer list returns, none of
  its values is a mapping, and \<^verbatim>\<open>spec["type"]\<close> raises \<^verbatim>\<open>TypeError\<close> on the first of them
  before anything is stored; the model raises it in the sort.
\<close>

definition sorted_specs :: "json list \<Rightarrow> error + json list" where
  "sorted_specs specs = (if length specs \<le> 1 then Inr specs else Inl TypeError)"

fun fold_err :: "('a \<Rightarrow> 's \<Rightarrow> error + 's) \<Rightarrow> 'a list \<Rightarrow> 's \<Rightarrow> error + 's" where
  "fold_err f [] s = Inr s"
| "fold_err f (x # xs) s = (case f x s of Inl e \<Rightarrow> Inl e | Inr s' \<Rightarrow> fold_err f xs s')"

lemma fold_err_cong [fundef_cong]:
  "xs = ys \<Longrightarrow> s = t \<Longrightarrow> (\<And>x u. x \<in> set ys \<Longrightarrow> f x u = g x u)
     \<Longrightarrow> fold_err f xs s = fold_err g ys t"
  by (induction ys arbitrary: xs s t) (auto split: sum.splits)

lemma size_dict_entry:
  "dict_get obj k (JDict []) = Inr props \<Longrightarrow> dict_items props = Inr kvs \<Longrightarrow> x \<in> set kvs
     \<Longrightarrow> size (snd x) < size obj"
proof -
  assume g: "dict_get obj k (JDict []) = Inr props" and i: "dict_items props = Inr kvs"
    and x: "x \<in> set kvs"
  from i have props: "props = JDict kvs"
    by (cases props) (auto simp: dict_items_def)
  from x have "(fst x, snd x) \<in> set kvs" by simp
  from size_json_member [OF this] have lt: "size (snd x) < size props"
    by (simp add: props)
  from g obtain okvs where obj: "obj = JDict okvs"
    by (cases obj) (auto simp: dict_get_def)
  from x props have "props \<noteq> JDict []" by auto
  with g obj have "map_of okvs k = Some props"
    by (auto simp: dict_get_def split: option.splits)
  then have "(k, props) \<in> set okvs" by (rule map_of_SomeD)
  from size_json_member [OF this] have "size props < size obj"
    by (simp add: obj)
  with lt show ?thesis by simp
qed

function collect_user_config_options :: "json \<Rightarrow> string \<Rightarrow> error + (string \<times> json) list" where
  "collect_user_config_options obj_def prefix =
     (case dict_get obj_def ''properties'' (JDict []) of
        Inl e \<Rightarrow> Inl e
      | Inr props \<Rightarrow>
     (case dict_items props of
        Inl e \<Rightarrow> Inl e
      | Inr prop_items \<Rightarrow>
     (case fold_err
             (\<lambda>ps opts.
                (case subscript (snd ps) ''type'' of
                   Inl e \<Rightarrow> Inl e
                 | Inr ty \<Rightarrow>
                     if ty = JStr ''object''
                     then (case collect_user_config_options (snd ps)
                                  (if prefix = [] then fst ps else prefix @ ''.'' @ fst ps) of
                             Inl e \<Rightarrow> Inl e
                           | Inr sub \<Rightarrow> Inr (dict_update sub opts))
                     else Inr (AList.update (if prefix = [] then fst ps else prefix @ ''.'' @ fst ps)
                                 (snd ps) opts)))
             (sort_key fst prop_items) [] of
        Inl e \<Rightarrow> Inl e
      | Inr opts \<Rightarrow>
     (case dict_get obj_def ''patternProperties'' (JDict []) of
        Inl e \<Rightarrow> Inl e
      | Inr pats \<Rightarrow>
     (case dict_items pats of
        Inl e \<Rightarrow> Inl e
      | Inr pat_items \<Rightarrow>
     (case sorted_specs (map snd pat_items) of
        Inl e \<Rightarrow> Inl e
      | Inr specs \<Rightarrow>
          fold_err
            (\<lambda>spec opts.
               (case subscript spec ''type'' of
                  Inl e \<Rightarrow> Inl e
                | Inr ty \<Rightarrow>
                    if ty = JStr ''object''
                    then (case collect_user_config_options spec
                                 (if prefix = [] then ''KEY'' else prefix @ ''.KEY'') of
                            Inl e \<Rightarrow> Inl e
                          | Inr sub \<Rightarrow> Inr (dict_update sub opts))
                    else Inr (AList.update (if prefix = [] then ''KEY'' else prefix @ ''.KEY'')
                                spec opts)))
            specs opts))))))"
  by pat_completeness auto
termination
proof (relation "measure (\<lambda>(obj_def, prefix). size obj_def)", goal_cases)
  case 1
  show ?case by simp
next
  case (2 obj_def prefix props prop_items ps opts ty)
  then have "ps \<in> set prop_items" by simp
  from size_dict_entry [OF 2(1) 2(2) this] show ?case by simp
next
  case (3 obj_def prefix props prop_items opts pats pat_items specs spec opts' ty)
  from 3(6,7) have "spec \<in> set (map snd pat_items)"
    by (auto simp: sorted_specs_def split: if_splits)
  then obtain x where "x \<in> set pat_items" and "spec = snd x" by auto
  with size_dict_entry [OF 3(4) 3(5)] show ?case by simp
qed

declare collect_user_config_options.simps [simp del]

subsection \<open>\<^verbatim>\<open>create_user_config\<close>\<close>

text \<open>Truth of a decoded value, as \<^verbatim>\<open>if not opt_schema\<close> tests it (\<^verbatim>\<open>None\<close> is false).\<close>

fun truthy :: "json \<Rightarrow> bool" where
  "truthy JNull = False"
| "truthy (JBool b) = b"
| "truthy (JInt i) = (i \<noteq> 0)"
| "truthy (JFloat t) = (t \<noteq> ''0.0'' \<and> t \<noteq> ''-0.0'')"
| "truthy (JStr s) = (s \<noteq> [])"
| "truthy (JList vs) = (vs \<noteq> [])"
| "truthy (JDict kvs) = (kvs \<noteq> [])"

definition truthy_opt :: "json option \<Rightarrow> bool" where
  "truthy_opt v = (case v of None \<Rightarrow> False | Some x \<Rightarrow> truthy x)"

text \<open>\<^verbatim>\<open>".".join(key.split(".")[:-1] + ["KEY"])\<close>\<close>

definition generic_key :: "string \<Rightarrow> string" where
  "generic_key key = join ''.'' (butlast (str_split (CHR ''.'') key) @ [''KEY''])"

text \<open>
  The schema of an option: the exact key, else the generic one. The result is \<^verbatim>\<open>None\<close>
  (or a false value) when the loop raises the error for an unsupported option.
\<close>

definition lookup_option :: "(string \<times> json) list \<Rightarrow> string \<Rightarrow> json option" where
  "lookup_option options key =
     (let opt_schema = map_of options key
      in if \<not> truthy_opt opt_schema then map_of options (generic_key key) else opt_schema)"

definition unsupported_option :: "(string \<times> json) list \<Rightarrow> string \<Rightarrow> error" where
  "unsupported_option options key =
     UserError (''Unsupported option '' @ py_repr key @ '', available options: ''
                @ (let names = join '', '' (map fst options) in if names = [] then ''none'' else names))"

text \<open>
  The walk along the parts of the key. \<^verbatim>\<open>conf.setdefault(part, {})\<close> raises
  \<^verbatim>\<open>AttributeError\<close> when an earlier assignment stored a value that is not a mapping there,
  and the last assignment raises \<^verbatim>\<open>TypeError\<close> on such a value.
\<close>

fun set_path :: "string list \<Rightarrow> json \<Rightarrow> json \<Rightarrow> error + json" where
  "set_path [] v conf = Inr conf"
| "set_path [part] v conf =
     (case conf of JDict kvs \<Rightarrow> Inr (JDict (AList.update part v kvs)) | _ \<Rightarrow> Inl TypeError)"
| "set_path (part # parts) v conf =
     (case conf of
        JDict kvs \<Rightarrow>
          (case set_path parts v (case map_of kvs part of None \<Rightarrow> JDict [] | Some sub \<Rightarrow> sub) of
             Inl e \<Rightarrow> Inl e
           | Inr sub' \<Rightarrow> Inr (JDict (AList.update part sub' kvs)))
      | _ \<Rightarrow> Inl AttributeError)"

text \<open>
  The body of the loop over the assignments, and the loop. \<^verbatim>\<open>store_option\<close> is its second
  half, from the conversion of the value on; only a \<^verbatim>\<open>ValueError\<close> of the conversion is
  caught and raised again as a \<^verbatim>\<open>UserError\<close>.
\<close>

definition store_option :: "(string \<Rightarrow> string + string) \<Rightarrow> string \<Rightarrow> string \<Rightarrow> string \<Rightarrow> json \<Rightarrow> json
    \<Rightarrow> error + json" where
  "store_option py_float key_value key v opt_schema user_config =
     (case convert_str_to_value py_float opt_schema v of
        Inl (ValueError msg) \<Rightarrow>
          Inl (UserError (''Invalid value '' @ py_repr key_value @ '': '' @ msg))
      | Inl e \<Rightarrow> Inl e
      | Inr x \<Rightarrow> set_path (str_split (CHR ''.'') key) x user_config)"

definition invalid_config_value :: "string \<Rightarrow> error" where
  "invalid_config_value key_value =
     UserError (''Invalid config value: '' @ py_repr key_value
                @ '', expected '' @ [CHR 0x27] @ ''<KEY>[.<SUBKEY>]=<JSON_VALUE>'' @ [CHR 0x27])"

definition assign_one :: "(string \<Rightarrow> string + string) \<Rightarrow> (string \<times> json) list \<Rightarrow> string \<Rightarrow> json
    \<Rightarrow> error + json" where
  "assign_one py_float options key_value user_config =
     (case split_once (CHR ''='') key_value of
        [key, v] \<Rightarrow>
          (case lookup_option options key of
             None \<Rightarrow> Inl (unsupported_option options key)
           | Some opt_schema \<Rightarrow>
               if \<not> truthy opt_schema then Inl (unsupported_option options key)
               else store_option py_float key_value key v opt_schema user_config)
      | _ \<Rightarrow> Inl (invalid_config_value key_value))"

definition assign_all :: "(string \<Rightarrow> string + string) \<Rightarrow> (string \<times> json) list \<Rightarrow> string list \<Rightarrow> json
    \<Rightarrow> error + json" where
  "assign_all py_float options key_values user_config =
     fold_err (assign_one py_float options) key_values user_config"

text \<open>
  \<^verbatim>\<open>self.client.get_service_types\<close> is the parameter \<^verbatim>\<open>service_types\<close>. The function takes
  \<^verbatim>\<open>config_vars\<close> and loops over \<^verbatim>\<open>self.args.user_config\<close>; both callers pass the latter as
  the former.
\<close>

definition create_user_config :: "(string \<Rightarrow> string + string) \<Rightarrow> (string \<times> json) list \<Rightarrow> string
    \<Rightarrow> string list \<Rightarrow> string list \<Rightarrow> error + json" where
  "create_user_config py_float service_types service_type config_vars args_user_config =
     (if config_vars = [] then Inr (JDict [])
      else
        (case map_of service_types service_type of
           None \<Rightarrow>
             Inl (UserError (''Unknown service type '' @ py_repr service_type
                             @ '', available options: '' @ join '', '' (map fst service_types)))
         | Some service_def \<Rightarrow>
             (case subscript service_def ''user_config_schema'' of
                Inl e \<Rightarrow> Inl e
              | Inr schema \<Rightarrow>
                  (case collect_user_config_options schema [] of
                     Inl e \<Rightarrow> Inl e
                   | Inr options \<Rightarrow> assign_all py_float options args_user_config (JDict [])))))"

section \<open>Shapes named by the specification\<close>

text \<open>
  A string that looks like an ISO-8601 time to the second: four digits, two and two for the
  date, \<^verbatim>\<open>T\<close>, and three groups of two digits for the time. In a template \<^verbatim>\<open>d\<close> stands for
  a digit and every other character for itself.
\<close>

fun shape_match :: "string \<Rightarrow> string \<Rightarrow> bool" where
  "shape_match [] [] = True"
| "shape_match (t # ts) (c # cs) =
     ((if t = CHR ''d'' then is_digit c else c = t) \<and> shape_match ts cs)"
| "shape_match ts cs = False"

definition iso_seconds :: "string \<Rightarrow> bool" where
  "iso_seconds s = shape_match ''dddd-dd-ddTdd:dd:dd'' s"

text \<open>The characters that the JSON encoder writes as they are.\<close>

definition json_plain :: "char \<Rightarrow> bool" where
  "json_plain c = (CHR '' '' \<le> c \<and> c \<le> CHR ''~'' \<and> c \<noteq> CHR 0x22 \<and> c \<noteq> CHR 0x5C)"

text \<open>
  The flattened fields of a record that the formatting loop visits, in its order, and the row
  it builds from them.
\<close>

definition flat_fields :: "string list \<Rightarrow> json \<Rightarrow> (string \<times> json) list" where
  "flat_fields drop_fields item =
     (case item of
        JDict kvs \<Rightarrow>
          concat (map (\<lambda>kv. iter_values (fst kv) (snd kv)) (filter (\<lambda>kv. fst kv \<notin> set drop_fields) kvs))
      | _ \<Rightarrow> [])"

definition formatted_row_of :: "string list \<Rightarrow> json \<Rightarrow> row" where
  "formatted_row_of drop_fields item =
     fold (\<lambda>kv. AList.update (fst kv) (format_item (Some (fst kv)) (snd kv))) (flat_fields drop_fields item) []"

text \<open>The lines of one record: its data line and its detail lines.\<close>

definition record_block :: "(string \<Rightarrow> string \<Rightarrow> bool) \<Rightarrow> (string \<times> nat) list \<Rightarrow> string list \<Rightarrow> nat \<Rightarrow> row
    \<Rightarrow> string list" where
  "record_block fnmatch cols vertical_fields vertical_width formatted_row =
     data_line cols formatted_row # vertical_lines fnmatch vertical_fields vertical_width formatted_row"

text \<open>The widths dictionary has distinct names and no width below 1.\<close>

definition widths_ok :: "widths \<Rightarrow> bool" where
  "widths_ok ws = (distinct (map fst ws) \<and> (\<forall>k w. map_of ws k = Some w \<longrightarrow> 1 \<le> w))"

text \<open>The column names and the detail patterns of a layout.\<close>

fun layout_columns :: "layout \<Rightarrow> string list" where
  "layout_columns (Flat hs) = hs"
| "layout_columns (Rows hs vs) = hs"

fun layout_details :: "layout \<Rightarrow> string list" where
  "layout_details (Flat hs) = []"
| "layout_details (Rows hs vs) = vs"

text \<open>
  The schema nodes that the flattening enters from a node: the node itself, the nodes entered
  from a property of type \<^verbatim>\<open>object\<close>, and those entered from the single pattern property when
  it is of type \<^verbatim>\<open>object\<close>.
\<close>

inductive visits :: "json \<Rightarrow> json \<Rightarrow> bool" where
  visits_here: "visits node node"
| visits_property:
    "dict_get node ''properties'' (JDict []) = Inr props \<Longrightarrow> dict_items props = Inr kvs \<Longrightarrow>
     ps \<in> set kvs \<Longrightarrow> subscript (snd ps) ''type'' = Inr (JStr ''object'') \<Longrightarrow>
     visits (snd ps) target \<Longrightarrow> visits node target"
| visits_pattern:
    "dict_get node ''patternProperties'' (JDict []) = Inr pats \<Longrightarrow> dict_items pats = Inr [ps] \<Longrightarrow>
     subscript (snd ps) ''type'' = Inr (JStr ''object'') \<Longrightarrow>
     visits (snd ps) target \<Longrightarrow> visits node target"

text \<open>
  The integer literals of base 0. \<^verbatim>\<open>lstrip\<close> and \<^verbatim>\<open>rstrip\<close> take the white space away from the
  two ends of a string, and \<^verbatim>\<open>unsign\<close> one sign from its start.
\<close>

definition lstrip :: "string \<Rightarrow> string" where
  "lstrip s = dropWhile is_space s"

definition rstrip :: "string \<Rightarrow> string" where
  "rstrip s = rev (dropWhile is_space (rev s))"

definition unsign :: "string \<Rightarrow> string" where
  "unsign t = (if t \<noteq> [] \<and> (hd t = CHR ''+'' \<or> hd t = CHR ''-'') then tl t else t)"

text \<open>
  Digits with single underscores between them: a digit, then digits each of which may have one
  underscore before it. \<^verbatim>\<open>digits_of\<close> leaves the underscores out.
\<close>

fun digit_groups :: "(char \<Rightarrow> bool) \<Rightarrow> string \<Rightarrow> bool" where
  "digit_groups P [] = False"
| "digit_groups P [c] = P c"
| "digit_groups P (c # d # cs) =
     (P c \<and> (if d = CHR ''_'' then digit_groups P cs else digit_groups P (d # cs)))"

definition digits_of :: "string \<Rightarrow> string" where
  "digits_of w = filter (\<lambda>c. c \<noteq> CHR ''_'') w"

text \<open>
  A decimal literal: digits of base 10 of which there are at most 4300, all of them \<^verbatim>\<open>0\<close> if
  the first one is.
\<close>

definition decimal_text :: "string \<Rightarrow> bool" where
  "decimal_text w =
     (digit_groups is_digit w
      \<and> (hd w = CHR ''0'' \<longrightarrow> list_all (\<lambda>c. c = CHR ''0'') (digits_of w))
      \<and> length (digits_of w) \<le> 4300)"

text \<open>
  A literal with a prefix: \<^verbatim>\<open>0\<close>, one of the two letters of the base, at most one underscore,
  and digits of the base.
\<close>

definition prefix_letter :: "char \<Rightarrow> bool" where
  "prefix_letter d \<longleftrightarrow> d \<in> {CHR ''x'', CHR ''X'', CHR ''o'', CHR ''O'', CHR ''b'', CHR ''B''}"

definition after_prefix :: "string \<Rightarrow> string" where
  "after_prefix w = (let r = drop 2 w in if r \<noteq> [] \<and> hd r = CHR ''_'' then tl r else r)"

definition prefixed_text :: "nat \<Rightarrow> char \<Rightarrow> char \<Rightarrow> string \<Rightarrow> bool" where
  "prefixed_text b x y w =
     (2 \<le> length w \<and> w ! 0 = CHR ''0'' \<and> (w ! 1 = x \<or> w ! 1 = y)
      \<and> digit_groups (\<lambda>c. digit_value c < b) (after_prefix w))"

text \<open>A literal without sign and the number it denotes; a literal and the integer it denotes.\<close>

definition unsigned_text :: "string \<Rightarrow> bool" where
  "unsigned_text w =
     (decimal_text w \<or> prefixed_text 16 (CHR ''x'') (CHR ''X'') w
      \<or> prefixed_text 8 (CHR ''o'') (CHR ''O'') w \<or> prefixed_text 2 (CHR ''b'') (CHR ''B'') w)"

definition unsigned_value :: "string \<Rightarrow> nat" where
  "unsigned_value w =
     (if prefixed_text 16 (CHR ''x'') (CHR ''X'') w then digits_value 16 (digits_of (drop 2 w))
      else if prefixed_text 8 (CHR ''o'') (CHR ''O'') w then digits_value 8 (digits_of (drop 2 w))
      else if prefixed_text 2 (CHR ''b'') (CHR ''B'') w then digits_value 2 (digits_of (drop 2 w))
      else digits_value 10 (digits_of w))"

definition int_text :: "string \<Rightarrow> bool" where
  "int_text s = unsigned_text (unsign (rstrip (lstrip s)))"

definition int_text_value :: "string \<Rightarrow> int" where
  "int_text_value s =
     (let t = rstrip (lstrip s)
      in if t \<noteq> [] \<and> hd t = CHR ''-'' then - int (unsigned_value (unsign t))
         else int (unsigned_value (unsign t)))"

text \<open>
  The schema of an option that the conversion can read: a mapping with a \<^verbatim>\<open>type\<close> that is a
  string or a list, and, when the type names \<^verbatim>\<open>array\<close>, with \<^verbatim>\<open>items\<close> that are such a schema.
\<close>

function typed_schema :: "json \<Rightarrow> bool" where
  "typed_schema sch =
     (case subscript sch ''type'' of
        Inl e \<Rightarrow> False
      | Inr ty \<Rightarrow>
          (case ty of JStr t \<Rightarrow> True | JList ts \<Rightarrow> True | _ \<Rightarrow> False)
          \<and> (if py_in ''array'' ty = Inr True
             then (case subscript sch ''items'' of Inl e \<Rightarrow> False | Inr items \<Rightarrow> typed_schema items)
             else True))"
  by pat_completeness auto
termination
  by (relation "measure size") (auto dest: size_subscript)

declare typed_schema.simps [simp del]

definition typed_options :: "(string \<times> json) list \<Rightarrow> bool" where
  "typed_options options = list_all (\<lambda>kv. typed_schema (snd kv)) options"

text \<open>
  The walk along the parts of a key meets no stored value that is not a mapping: the
  configuration is a mapping, and so is what it holds under each part before the last, as far
  as the parts are present.
\<close>

fun path_free :: "string list \<Rightarrow> json \<Rightarrow> bool" where
  "path_free [] conf = True"
| "path_free [part] conf = is_dict conf"
| "path_free (part # parts) conf =
     (case conf of
        JDict kvs \<Rightarrow> (case map_of kvs part of None \<Rightarrow> True | Some sub \<Rightarrow> path_free parts sub)
      | _ \<Rightarrow> False)"

text \<open>
  The errors with a message for the user: a \<^verbatim>\<open>UserError\<close> whose message starts with one of the
  five phrases of \<^verbatim>\<open>create_user_config\<close> and \<^verbatim>\<open>convert_str_to_value\<close>.
\<close>

definition failure_prefixes :: "string list" where
  "failure_prefixes =
     [''Invalid config value: '', ''Unsupported option '', ''Invalid value '',
      ''Invalid boolean value '', ''Supported for option value type(s) '']"

definition user_message :: "error \<Rightarrow> bool" where
  "user_message e =
     (case e of UserError m \<Rightarrow> list_ex (startswith m) failure_prefixes | _ \<Rightarrow> False)"

section \<open>Properties of the renderer\<close>

subsection \<open>Formatting of strings\<close>

lemma json_escape_plain: "json_plain c \<Longrightarrow> json_escape c = [c]"
  by (auto simp: json_plain_def json_escape_def less_eq_char_def)

lemma concat_escape_plain: "list_all json_plain s \<Longrightarrow> concat (map json_escape s) = s"
  by (induction s) (auto simp: json_escape_plain)

lemma json_dumps_str_plain: "list_all json_plain s \<Longrightarrow> json_dumps_str s = quoted s"
  by (simp add: json_dumps_str_def concat_escape_plain)

lemma str_in_char: "str_in [c] v \<longleftrightarrow> c \<in> set v"
  by (induction v) (auto simp: startswith_def)

lemma endswith_append: "endswith (a @ b) b"
  by (simp add: endswith_def)

lemma is_digit_plain: "is_digit c \<Longrightarrow> json_plain c \<and> c \<noteq> CHR ''.''"
  by (auto simp: is_digit_def json_plain_def less_eq_char_def)

lemma shape_match_plain:
  "shape_match ts cs \<Longrightarrow> list_all (\<lambda>t. json_plain t \<and> t \<noteq> CHR ''.'') ts
     \<Longrightarrow> list_all (\<lambda>c. json_plain c \<and> c \<noteq> CHR ''.'') cs"
  by (induction ts cs rule: shape_match.induct) (auto simp: is_digit_plain split: if_splits)

lemma iso_seconds_plain:
  assumes "iso_seconds d"
  shows "list_all json_plain d" and "CHR ''.'' \<notin> set d"
proof -
  have "list_all (\<lambda>c. json_plain c \<and> c \<noteq> CHR ''.'') d"
    using assms unfolding iso_seconds_def
    by (rule shape_match_plain) (simp add: json_plain_def less_eq_char_def)
  then show "list_all json_plain d" and "CHR ''.'' \<notin> set d"
    by (auto simp: list_all_iff)
qed

lemma takeWhile_until: "c \<notin> set d \<Longrightarrow> takeWhile (\<lambda>x. x \<noteq> c) (d @ c # r) = d"
  by (induction d) auto

lemma drop_microseconds_None: "drop_microseconds None v = v"
  by (simp add: drop_microseconds_def)

lemma drop_microseconds_cut:
  assumes "endswith k ''_time''" "endswith v ''Z''" "CHR ''.'' \<in> set v"
  shows "drop_microseconds (Some k) v = takeWhile (\<lambda>c. c \<noteq> CHR ''.'') v @ ''Z''"
proof -
  from assms(1) have "k \<noteq> []" by (auto simp: endswith_def)
  with assms show ?thesis
    by (simp add: drop_microseconds_def str_in_char split_once_def)
qed

text \<open>
  Claim C4. For a name that ends in \<^verbatim>\<open>_time\<close>, a value made of an ISO-8601 time to the
  second, a dot, a non-empty run of digits and \<^verbatim>\<open>Z\<close> is rendered as the time to the second
  followed by \<^verbatim>\<open>Z\<close>: everything from the dot up to the final \<^verbatim>\<open>Z\<close> is dropped. The same
  time without a fractional part is rendered unchanged.
\<close>

theorem format_item_iso_timestamp:
  assumes "endswith k ''_time''" and "iso_seconds d" and "f \<noteq> []" and "list_all is_digit f"
  shows "format_item (Some k) (JStr (d @ ''.'' @ f @ ''Z'')) = d @ ''Z''
    \<and> format_item (Some k) (JStr (d @ ''Z'')) = d @ ''Z''"
proof (intro conjI)
  have plain: "list_all json_plain (d @ ''Z'')"
    using iso_seconds_plain(1) [OF assms(2)] by (simp add: json_plain_def less_eq_char_def)
  have nodot: "CHR ''.'' \<notin> set (d @ ''Z'')"
    using iso_seconds_plain(2) [OF assms(2)] by simp
  have same: "format_item None (JStr (d @ ''Z'')) = d @ ''Z''"
    by (simp add: Let_def drop_microseconds_None json_dumps_str_plain [OF plain])
  have "drop_microseconds (Some k) (d @ ''.'' @ f @ ''Z'')
      = takeWhile (\<lambda>c. c \<noteq> CHR ''.'') (d @ ''.'' @ f @ ''Z'') @ ''Z''"
    apply (rule drop_microseconds_cut [OF assms(1)])
    using endswith_append [of "d @ ''.'' @ f" "''Z''"] by simp_all
  also have "takeWhile (\<lambda>c. c \<noteq> CHR ''.'') (d @ ''.'' @ f @ ''Z'') = d"
    using iso_seconds_plain(2) [OF assms(2)] by (simp add: takeWhile_until)
  finally have cut: "drop_microseconds (Some k) (d @ ''.'' @ f @ ''Z'') = d @ ''Z''" .
  show "format_item (Some k) (JStr (d @ ''.'' @ f @ ''Z'')) = d @ ''Z''"
    using cut same by (simp add: Let_def drop_microseconds_None)
  have "drop_microseconds (Some k) (d @ ''Z'') = d @ ''Z''"
    using nodot by (simp add: drop_microseconds_def str_in_char)
  then show "format_item (Some k) (JStr (d @ ''Z'')) = d @ ''Z''"
    using same by (simp add: Let_def drop_microseconds_None)
qed

theorem format_item_iso_timestamp_witness:
  "format_item (Some ''create_time'') (JStr ''2020-01-01T00:00:00.123456Z'') = ''2020-01-01T00:00:00Z''
   \<and> format_item (Some ''create_time'') (JStr ''2020-01-01T00:00:00Z'') = ''2020-01-01T00:00:00Z''"
proof -
  have k: "endswith ''create_time'' ''_time''" by (simp add: endswith_def)
  have d: "iso_seconds ''2020-01-01T00:00:00''" by (simp add: iso_seconds_def is_digit_def)
  have f: "''123456'' \<noteq> []" by simp
  have g: "list_all is_digit ''123456''" by (simp add: is_digit_def)
  from format_item_iso_timestamp [OF k d f g] show ?thesis by simp
qed

text \<open>
  Claim C10. The truncation looks at the name and at the shape of the string only: a string
  under a name that ends in \<^verbatim>\<open>_time\<close>, which ends in \<^verbatim>\<open>Z\<close> and contains a dot, is rendered
  as the string cut at its first dot with \<^verbatim>\<open>Z\<close> appended is rendered, whatever else it
  contains. A string formatted without a name is rendered untruncated, and the elements of a
  sequence and the items of \<^verbatim>\<open>print_list\<close> are formatted without a name.
\<close>

theorem format_item_truncation_rule:
  "(endswith k ''_time'' \<and> endswith v ''Z'' \<and> CHR ''.'' \<in> set v \<longrightarrow>
      format_item (Some k) (JStr v)
        = format_item None (JStr (takeWhile (\<lambda>c. c \<noteq> CHR ''.'') v @ ''Z'')))
   \<and> format_item None (JStr v) = (if json_dumps_str v = quoted v then v else json_dumps_str v)
   \<and> format_item key (JList vs) = join '', '' (map (format_item None) vs)
   \<and> print_list items = map (format_item None) items"
proof (intro conjI impI)
  assume a: "endswith k ''_time'' \<and> endswith v ''Z'' \<and> CHR ''.'' \<in> set v"
  then have "drop_microseconds (Some k) v = takeWhile (\<lambda>c. c \<noteq> CHR ''.'') v @ ''Z''"
    by (simp add: drop_microseconds_cut)
  then show "format_item (Some k) (JStr v)
        = format_item None (JStr (takeWhile (\<lambda>c. c \<noteq> CHR ''.'') v @ ''Z''))"
    by (simp add: Let_def drop_microseconds_None)
qed (simp_all add: Let_def drop_microseconds_None print_list_def)

theorem format_item_truncation_rule_witness:
  "format_item (Some ''x_time'') (JStr ''not.a.dateZ'') = ''notZ''
   \<and> format_item None (JStr ''not.a.dateZ'') = ''not.a.dateZ''
   \<and> format_item (Some ''x_time'') (JList [JStr ''not.a.dateZ'']) = ''not.a.dateZ''
   \<and> print_list [JStr ''not.a.dateZ''] = [''not.a.dateZ'']"
  using format_item_truncation_rule [of "''x_time''" "''not.a.dateZ''" "Some ''x_time''"
      "[JStr ''not.a.dateZ'']" "[JStr ''not.a.dateZ'']"]
  by (simp add: endswith_def json_dumps_str_def json_escape_def quoted_def
      drop_microseconds_def str_in_char split_once_def)

subsection \<open>The formatting loop\<close>

lemma fold_nested:
  "fold (\<lambda>kv st. if P kv then st else fold g (h kv) st) kvs st
     = fold g (concat (map h (filter (\<lambda>kv. \<not> P kv) kvs))) st"
  by (induction kvs arbitrary: st) auto

lemma format_record_dict:
  "format_record d w (JDict kvs) = Inr (fold format_field (flat_fields d (JDict kvs)) ([], w))"
  by (simp add: format_record_def flat_fields_def fold_nested)

lemma format_record_not_dict: "\<not> is_dict item \<Longrightarrow> format_record d w item = Inl AttributeError"
  by (cases item) (auto simp: format_record_def)

lemma fst_format_field:
  "fst (format_field kv st) = AList.update (fst kv) (format_item (Some (fst kv)) (snd kv)) (fst st)"
  by (cases kv; cases st) (simp add: format_field_def Let_def)

lemma fst_fold_format_field:
  "fst (fold format_field xs st)
     = fold (\<lambda>kv. AList.update (fst kv) (format_item (Some (fst kv)) (snd kv))) xs (fst st)"
  by (induction xs arbitrary: st) (auto simp: fst_format_field)

lemma keys_fold_update:
  "fst ` set (fold (\<lambda>kv. AList.update (fst kv) (c kv)) xs al) = fst ` set xs \<union> fst ` set al"
  by (induction xs arbitrary: al) (auto simp: dom_update)

lemma snd_format_field_keys:
  "fst ` set (snd (format_field kv st)) = insert (fst kv) (fst ` set (snd st))"
  by (cases kv; cases st) (simp add: format_field_def Let_def dom_update)

lemma snd_fold_format_field_keys:
  "fst ` set (snd (fold format_field xs st)) = fst ` set xs \<union> fst ` set (snd st)"
  by (induction xs arbitrary: st) (auto simp: snd_format_field_keys)

lemma snd_format_field_distinct:
  "distinct (map fst (snd st)) \<Longrightarrow> distinct (map fst (snd (format_field kv st)))"
  by (cases kv; cases st) (simp add: format_field_def Let_def distinct_update)

lemma snd_fold_format_field_distinct:
  "distinct (map fst (snd st)) \<Longrightarrow> distinct (map fst (snd (fold format_field xs st)))"
  by (induction xs arbitrary: st) (auto simp: snd_format_field_distinct)

lemma widths_ok_format_field: "widths_ok (snd st) \<Longrightarrow> widths_ok (snd (format_field kv st))"
  by (cases kv; cases st)
    (auto simp: format_field_def Let_def widths_ok_def distinct_update update_conv' le_max_iff_disj
       split: option.splits)

lemma widths_ok_fold: "widths_ok (snd st) \<Longrightarrow> widths_ok (snd (fold format_field xs st))"
  by (induction xs arbitrary: st) (auto simp: widths_ok_format_field)

lemma format_all_result:
  "list_all is_dict rs \<Longrightarrow>
     \<exists>ws. format_all d rs w0 f0 = Inr (ws, f0 @ map (formatted_row_of d) rs)
        \<and> fst ` set ws = fst ` set w0 \<union> (\<Union>x\<in>set rs. fst ` set (flat_fields d x))
        \<and> (widths_ok w0 \<longrightarrow> widths_ok ws)"
proof (induction rs arbitrary: w0 f0)
  case Nil
  then show ?case by simp
next
  case (Cons r rs)
  from Cons.prems obtain kvs where r: "r = JDict kvs" by (cases r) auto
  let ?st = "fold format_field (flat_fields d r) ([], w0)"
  have rec: "format_record d w0 r = Inr (fst ?st, snd ?st)"
    by (simp add: r format_record_dict)
  have row: "fst ?st = formatted_row_of d r"
    by (simp add: fst_fold_format_field formatted_row_of_def)
  from Cons.prems have "list_all is_dict rs" by simp
  from Cons.IH [OF this, of "snd ?st" "f0 @ [formatted_row_of d r]"]
  obtain ws where ws: "format_all d rs (snd ?st) (f0 @ [formatted_row_of d r])
        = Inr (ws, (f0 @ [formatted_row_of d r]) @ map (formatted_row_of d) rs)"
      and keys: "fst ` set ws = fst ` set (snd ?st) \<union> (\<Union>x\<in>set rs. fst ` set (flat_fields d x))"
      and ok: "widths_ok (snd ?st) \<longrightarrow> widths_ok ws"
    by blast
  have "format_all d (r # rs) w0 f0 = Inr (ws, f0 @ map (formatted_row_of d) (r # rs))"
    using ws by (simp add: rec row)
  moreover have "fst ` set ws = fst ` set w0 \<union> (\<Union>x\<in>set (r # rs). fst ` set (flat_fields d x))"
    using keys by (auto simp: snd_fold_format_field_keys)
  moreover have "widths_ok w0 \<longrightarrow> widths_ok ws"
    using ok widths_ok_fold [of "([], w0)" "flat_fields d r"] by simp
  ultimately show ?case by blast
qed

lemma format_all_not_dict:
  "\<not> list_all is_dict rs \<Longrightarrow> format_all d rs w0 f0 = Inl AttributeError"
proof (induction rs arbitrary: w0 f0)
  case Nil
  then show ?case by simp
next
  case (Cons r rs)
  show ?case
  proof (cases "is_dict r")
    case False
    then show ?thesis by (simp add: format_record_not_dict)
  next
    case True
    then obtain kvs where r: "r = JDict kvs" by (cases r) auto
    from True Cons.prems have "\<not> list_all is_dict rs" by simp
    from Cons.IH [OF this] show ?thesis by (simp add: r format_record_dict split: prod.splits)
  qed
qed

lemma keys_formatted_row_of:
  "fst ` set (formatted_row_of d r) = fst ` set (flat_fields d r)"
  by (simp add: formatted_row_of_def keys_fold_update)

lemma map_insort_key: "map f (insort_key f x xs) = insort (f x) (map f xs)"
  by (induction xs) auto

lemma map_sort_key: "map f (sort_key f xs) = sort (map f xs)"
  by (induction xs) (auto simp: map_insort_key)

lemma map_err_lookup:
  "\<forall>y\<in>set ys. map_of ws (fst y) = Some (snd y) \<Longrightarrow>
     map_err (\<lambda>f. case map_of ws f of None \<Rightarrow> Inl KeyError | Some w \<Rightarrow> Inr (f, w)) (map fst ys) = Inr ys"
  by (induction ys) auto

lemma column_widths_sorted:
  assumes "distinct (map fst ws)"
  shows "column_widths ws (sort (map fst ws)) = Inr (sort_key fst ws)"
proof -
  have "\<forall>y\<in>set (sort_key fst ws). map_of ws (fst y) = Some (snd y)"
    using assms by simp
  from map_err_lookup [OF this] show ?thesis
    by (simp add: column_widths_def map_sort_key)
qed

lemma print_rows_no_vertical:
  "print_rows fm cols [] vw n rows = map (data_line cols) rows"
  by (induction rows arbitrary: n) (auto simp: vertical_lines_def)

lemma print_rows_later:
  "vs \<noteq> [] \<Longrightarrow> print_rows fm cols vs vw (Suc n) rows
     = concat (map (\<lambda>row. [] # record_block fm cols vs vw row) rows)"
  by (induction rows arbitrary: n) (auto simp: record_block_def)

lemma join_blank: "join [[]] (b # bs) = b @ concat (map (\<lambda>c. [] # c) bs)"
  by (induction bs arbitrary: b) auto

lemma print_rows_blocks:
  "vs \<noteq> [] \<Longrightarrow> print_rows fm cols vs vw 0 rows = join [[]] (map (record_block fm cols vs vw) rows)"
proof (cases rows)
  case Nil
  then show ?thesis by simp
next
  case (Cons row rest)
  assume "vs \<noteq> []"
  then show ?thesis
    by (simp add: Cons join_blank print_rows_later record_block_def comp_def)
qed

lemma resolve_layout_Some:
  "l \<noteq> Flat [] \<Longrightarrow> resolve_layout ws (Some l) = Inr (layout_columns l, layout_details l)"
  by (cases l) (auto simp: resolve_layout_def split: list.splits)

lemma map_err_lookup_present:
  "set hs \<subseteq> fst ` set ws \<Longrightarrow>
     \<exists>cols. map_err (\<lambda>f. case map_of ws f of None \<Rightarrow> Inl KeyError | Some w \<Rightarrow> Inr (f, w)) hs = Inr cols
        \<and> map fst cols = hs \<and> (\<forall>c\<in>set cols. map_of ws (fst c) = Some (snd c))"
proof (induction hs)
  case Nil
  then show ?case by simp
next
  case (Cons h hs)
  then obtain cols where c: "map_err (\<lambda>f. case map_of ws f of None \<Rightarrow> Inl KeyError | Some w \<Rightarrow> Inr (f, w)) hs = Inr cols"
      "map fst cols = hs" "\<forall>c\<in>set cols. map_of ws (fst c) = Some (snd c)"
    by auto
  from Cons.prems have "h \<in> fst ` set ws" by simp
  then obtain w where w: "map_of ws h = Some w"
    by (metis domD dom_map_of_conv_image_fst)
  with c show ?case by auto
qed

lemma column_widths_present:
  "set hs \<subseteq> fst ` set ws \<Longrightarrow>
     \<exists>cols. column_widths ws hs = Inr cols \<and> map fst cols = hs
        \<and> (\<forall>c\<in>set cols. map_of ws (fst c) = Some (snd c))"
  unfolding column_widths_def by (rule map_err_lookup_present)

lemma print_table_dicts:
  assumes "format_all d (r # rs) [] [] = Inr (ws, rows)" and "is_dict r"
    and "resolve_layout ws l = Inr (hs, vs)" and "column_widths ws hs = Inr cols"
  shows "print_table fm (r # rs) d l
     = Inr (header_line cols # separator_line cols
            # print_rows fm cols vs (if vs \<noteq> [] then Max (set (map (longest fm (last rows)) vs)) else 0) 0 rows)"
  using assms by (simp add: print_table_def Let_def)

lemma cell_missing:
  "f \<notin> fst ` set (flat_fields d x) \<Longrightarrow> cell (formatted_row_of d x) (f, w) = replicate w (CHR '' '')"
proof -
  assume "f \<notin> fst ` set (flat_fields d x)"
  then have "f \<notin> fst ` set (formatted_row_of d x)" by (simp add: keys_formatted_row_of)
  then have "map_of (formatted_row_of d x) f = None"
    by (simp add: map_of_eq_None_iff)
  then show ?thesis by (simp add: cell_def ljust_def)
qed

lemma resolve_layout_None:
  "ws \<noteq> [] \<Longrightarrow> resolve_layout ws None = Inr (sort (map fst ws), [])"
proof -
  assume "ws \<noteq> []"
  then have "length (sort (map fst ws)) \<noteq> 0" by simp
  then obtain f fs where "sort (map fst ws) = f # fs" by (cases "sort (map fst ws)") auto
  then show ?thesis by (simp add: resolve_layout_def)
qed

lemma join_nonempty: "xs \<noteq> [] \<Longrightarrow> hd xs \<noteq> [] \<Longrightarrow> join sep xs \<noteq> []"
proof (cases xs)
  case Nil
  assume "xs \<noteq> []"
  with Nil show ?thesis by simp
next
  case (Cons y ys)
  assume "hd xs \<noteq> []"
  with Cons show ?thesis by (cases ys) auto
qed

lemma ljust_nonempty: "1 \<le> w \<Longrightarrow> ljust s w \<noteq> []"
  by (cases s) (auto simp: ljust_def)

lemma vertical_lines_nonblank: "[] \<notin> set (vertical_lines fm vs vw row)"
  by (auto simp: vertical_lines_def)

lemma column_widths_props:
  "column_widths ws hs = Inr cols \<Longrightarrow>
     map fst cols = hs \<and> (\<forall>c\<in>set cols. map_of ws (fst c) = Some (snd c))"
  unfolding column_widths_def
proof (induction hs arbitrary: cols)
  case Nil
  then show ?case by simp
next
  case (Cons h hs)
  then show ?case by (auto split: option.splits sum.splits)
qed

subsection \<open>Where the renderer raises and where it does not\<close>

text \<open>
  Claim C1, as stated, fails. \<^verbatim>\<open>print_table\<close> raises \<^verbatim>\<open>AttributeError\<close> on a list whose first
  element is a mapping and whose second is not, \<^verbatim>\<open>IndexError\<close> on the empty layout and on
  records without fields under the default layout, and \<^verbatim>\<open>KeyError\<close> on a column that no
  record has.
\<close>

theorem print_table_raises:
  "print_table glob [JDict [(''a'', JInt 1)], JInt 5] [] None = Inl AttributeError
   \<and> print_table glob [JDict [(''a'', JInt 1)]] [] (Some (Flat [])) = Inl IndexError
   \<and> print_table glob [JDict [(''a'', JInt 1)]] [] (Some (Flat [''b''])) = Inl KeyError
   \<and> print_table glob [JDict []] [] None = Inl IndexError"
  by code_simp

text \<open>
  Claim C1, amended. \<^verbatim>\<open>print_table\<close> prints nothing for the empty list; it prints a list
  whose first element is not a mapping in list mode, one formatted line per element; and for
  a non-empty list of mappings and a layout that is not empty and whose columns are each a
  flattened field of at least one record, it prints the header, the separator and the rows
  of the records. The cell of a column whose field the record lacks is the empty string
  padded to the width of the column.
\<close>

theorem print_table_total_cases:
  "print_table fm [] d l = Inr []
   \<and> (\<not> is_dict r \<longrightarrow> print_table fm (r # rs) d l = Inr (map (format_item None) (r # rs)))
   \<and> (list_all is_dict (r # rs) \<and> t \<noteq> Flat []
        \<and> set (layout_columns t) \<subseteq> (\<Union>x\<in>set (r # rs). fst ` set (flat_fields d x)) \<longrightarrow>
        (\<exists>ws cols.
           format_all d (r # rs) [] [] = Inr (ws, map (formatted_row_of d) (r # rs))
           \<and> column_widths ws (layout_columns t) = Inr cols
           \<and> print_table fm (r # rs) d (Some t)
               = Inr (header_line cols # separator_line cols
                      # print_rows fm cols (layout_details t)
                          (if layout_details t \<noteq> []
                           then Max (set (map (longest fm (formatted_row_of d (last (r # rs)))) (layout_details t)))
                           else 0)
                          0 (map (formatted_row_of d) (r # rs)))))
   \<and> (f \<notin> fst ` set (flat_fields d x) \<longrightarrow>
        cell (formatted_row_of d x) (f, w) = replicate w (CHR '' ''))"
proof (intro conjI impI)
  show "print_table fm [] d l = Inr []" by (simp add: print_table_def)
next
  assume "\<not> is_dict r"
  then show "print_table fm (r # rs) d l = Inr (map (format_item None) (r # rs))"
    by (simp add: print_table_def print_list_def)
next
  assume a: "list_all is_dict (r # rs) \<and> t \<noteq> Flat []
        \<and> set (layout_columns t) \<subseteq> (\<Union>x\<in>set (r # rs). fst ` set (flat_fields d x))"
  from format_all_result [of "r # rs" d "[]" "[]"] a
  obtain ws where ws: "format_all d (r # rs) [] [] = Inr (ws, map (formatted_row_of d) (r # rs))"
      and keys: "fst ` set ws = (\<Union>x\<in>set (r # rs). fst ` set (flat_fields d x))"
    by auto
  from a keys have "set (layout_columns t) \<subseteq> fst ` set ws" by simp
  from column_widths_present [OF this]
  obtain cols where cols: "column_widths ws (layout_columns t) = Inr cols" by blast
  from a have r: "is_dict r" by simp
  from a have res: "resolve_layout ws (Some t) = Inr (layout_columns t, layout_details t)"
    by (simp add: resolve_layout_Some)
  have lastrow: "last (map (formatted_row_of d) (r # rs)) = formatted_row_of d (last (r # rs))"
    by (simp add: last_map)
  from print_table_dicts [OF ws r res cols, of fm] ws cols
  show "\<exists>ws cols.
           format_all d (r # rs) [] [] = Inr (ws, map (formatted_row_of d) (r # rs))
           \<and> column_widths ws (layout_columns t) = Inr cols
           \<and> print_table fm (r # rs) d (Some t)
               = Inr (header_line cols # separator_line cols
                      # print_rows fm cols (layout_details t)
                          (if layout_details t \<noteq> []
                           then Max (set (map (longest fm (formatted_row_of d (last (r # rs)))) (layout_details t)))
                           else 0)
                          0 (map (formatted_row_of d) (r # rs)))"
    unfolding lastrow by blast
next
  assume "f \<notin> fst ` set (flat_fields d x)"
  then show "cell (formatted_row_of d x) (f, w) = replicate w (CHR '' '')"
    by (rule cell_missing)
qed

theorem print_table_total_cases_witness:
  "print_table glob [] [] None = Inr []
   \<and> print_table glob [JInt 1, JDict [(''a'', JInt 1)]] [] None = Inr [''1'', ''{'' @ [CHR 0x22] @ ''a'' @ [CHR 0x22] @ '': 1}'']
   \<and> print_table glob [JDict [(''a'', JInt 1), (''b'', JStr ''x'')], JDict [(''a'', JInt 3)]] []
        (Some (Flat [''a'', ''b''])) = Inr [''A  B'', ''=  ='', ''1  x'', ''3   '']
   \<and> cell (formatted_row_of [] (JDict [(''a'', JInt 3)])) (''b'', 1) = '' ''"
proof -
  let ?r = "JDict [(''a'', JInt 1), (''b'', JStr ''x'')]"
  let ?s = "JDict [(''a'', JInt 3)]"
  note t1 = print_table_total_cases [of glob "[]" None "JInt 1" "[JDict [(''a'', JInt 1)]]" "Flat [''a'']"
      "''b''" ?s 1]
  note t2 = print_table_total_cases [of glob "[]" None ?r "[?s]" "Flat [''a'', ''b'']" "''b''" ?s 1]
  have a: "print_table glob [] [] None = Inr []" using t1 by simp
  have b: "print_table glob [JInt 1, JDict [(''a'', JInt 1)]] [] None
      = Inr (map (format_item None) [JInt 1, JDict [(''a'', JInt 1)]])"
    using t1 by simp
  have "Inr (map (format_item None) [JInt 1, JDict [(''a'', JInt 1)]])
      = (Inr [''1'', ''{'' @ [CHR 0x22] @ ''a'' @ [CHR 0x22] @ '': 1}''] :: error + string list)"
    by code_simp
  with b have b': "print_table glob [JInt 1, JDict [(''a'', JInt 1)]] [] None
      = Inr [''1'', ''{'' @ [CHR 0x22] @ ''a'' @ [CHR 0x22] @ '': 1}'']"
    by (rule trans)
  have pre: "list_all is_dict [?r, ?s] \<and> Flat [''a'', ''b''] \<noteq> Flat []
      \<and> set (layout_columns (Flat [''a'', ''b''])) \<subseteq> (\<Union>x\<in>set [?r, ?s]. fst ` set (flat_fields [] x))"
    by code_simp
  from t2 pre obtain ws cols where
      f: "format_all [] [?r, ?s] [] [] = Inr (ws, map (formatted_row_of []) [?r, ?s])"
      and c: "column_widths ws (layout_columns (Flat [''a'', ''b''])) = Inr cols"
      and p: "print_table glob [?r, ?s] [] (Some (Flat [''a'', ''b'']))
               = Inr (header_line cols # separator_line cols
                      # print_rows glob cols (layout_details (Flat [''a'', ''b'']))
                          (if layout_details (Flat [''a'', ''b'']) \<noteq> []
                           then Max (set (map (longest glob (formatted_row_of [] (last [?r, ?s])))
                                  (layout_details (Flat [''a'', ''b'']))))
                           else 0)
                          0 (map (formatted_row_of []) [?r, ?s]))"
    by blast
  have "format_all [] [?r, ?s] [] [] = Inr ([(''a'', 1), (''b'', 1)], [[(''a'', ''1''), (''b'', ''x'')], [(''a'', ''3'')]])"
    by code_simp
  with f have ws: "ws = [(''a'', 1), (''b'', 1)]" by simp
  have "column_widths [(''a'', 1), (''b'', 1)] [''a'', ''b''] = Inr [(''a'', 1), (''b'', 1)]"
    by code_simp
  with c ws have cols: "cols = [(''a'', 1), (''b'', 1)]" by simp
  have "Inr (header_line [(''a'', 1), (''b'', 1)] # separator_line [(''a'', 1), (''b'', 1)]
                      # print_rows glob [(''a'', 1), (''b'', 1)] [] 0 0 (map (formatted_row_of []) [?r, ?s]))
     = (Inr [''A  B'', ''=  ='', ''1  x'', ''3   ''] :: error + string list)"
    by code_simp
  with p cols have c': "print_table glob [?r, ?s] [] (Some (Flat [''a'', ''b'']))
      = Inr [''A  B'', ''=  ='', ''1  x'', ''3   '']"
    by simp
  have "''b'' \<notin> fst ` set (flat_fields [] ?s)" by (simp add: flat_fields_def)
  with t2 have "cell (formatted_row_of [] ?s) (''b'', 1) = replicate 1 (CHR '' '')" by blast
  then have d: "cell (formatted_row_of [] ?s) (''b'', 1) = '' ''" by simp
  from a b' c' d show ?thesis by blast
qed

subsection \<open>The default layout\<close>

text \<open>
  Claim C5, as stated, fails: without a layout the record with the one field \<^verbatim>\<open>a = 1\<close> is
  printed as a table with a header line and a separator line, not as the line \<^verbatim>\<open>a = 1\<close>.
\<close>

theorem print_table_default_is_table:
  "print_table glob [JDict [(''a'', JInt 1)]] [] None = Inr [''A'', ''='', ''1'']
   \<and> print_table glob [JDict [(''a'', JInt 1)]] [] None \<noteq> Inr [''a = 1'']"
  by code_simp

text \<open>
  Claim C5, amended. For a non-empty list of records with at least one flattened field that
  is not dropped, the output without a layout is the table whose single row of columns is
  made of all distinct flattened field names of all records, sorted: the header line, the
  separator line and one data line per record, as with that list of names given as the layout.
\<close>

theorem print_table_default_layout:
  assumes "list_all is_dict (r # rs)" and "\<exists>x\<in>set (r # rs). flat_fields d x \<noteq> []"
  shows "\<exists>ws. format_all d (r # rs) [] [] = Inr (ws, map (formatted_row_of d) (r # rs))
           \<and> fst ` set ws = (\<Union>x\<in>set (r # rs). fst ` set (flat_fields d x))
           \<and> distinct (map fst ws)
           \<and> sorted (map fst (sort_key fst ws))
           \<and> print_table fm (r # rs) d None = print_table fm (r # rs) d (Some (Flat (sort (map fst ws))))
           \<and> print_table fm (r # rs) d None
               = Inr (header_line (sort_key fst ws) # separator_line (sort_key fst ws)
                      # map (data_line (sort_key fst ws)) (map (formatted_row_of d) (r # rs)))"
proof -
  have ok0: "widths_ok []" by (simp add: widths_ok_def)
  from format_all_result [OF assms(1), of d "[]" "[]"] ok0
  obtain ws where ws: "format_all d (r # rs) [] [] = Inr (ws, map (formatted_row_of d) (r # rs))"
      and keys: "fst ` set ws = (\<Union>x\<in>set (r # rs). fst ` set (flat_fields d x))"
      and ok: "widths_ok ws"
    by auto
  from ok have dist: "distinct (map fst ws)" by (simp add: widths_ok_def)
  from assms(2) obtain x where "x \<in> set (r # rs)" and "flat_fields d x \<noteq> []" by blast
  then have "fst ` set ws \<noteq> {}" unfolding keys by auto
  then have ne: "ws \<noteq> []" by auto
  from assms(1) have r: "is_dict r" by simp
  have cw: "column_widths ws (sort (map fst ws)) = Inr (sort_key fst ws)"
    by (rule column_widths_sorted [OF dist])
  have out: "print_table fm (r # rs) d None
               = Inr (header_line (sort_key fst ws) # separator_line (sort_key fst ws)
                      # map (data_line (sort_key fst ws)) (map (formatted_row_of d) (r # rs)))"
    using print_table_dicts [OF ws r resolve_layout_None [OF ne] cw, of fm]
    by (simp only: print_rows_no_vertical)
  from ne have "sort (map fst ws) \<noteq> []" by (metis length_0_conv length_map length_sort)
  then have "Flat (sort (map fst ws)) \<noteq> Flat []" by simp
  from resolve_layout_Some [OF this, of ws]
  have "print_table fm (r # rs) d (Some (Flat (sort (map fst ws))))
               = Inr (header_line (sort_key fst ws) # separator_line (sort_key fst ws)
                      # map (data_line (sort_key fst ws)) (map (formatted_row_of d) (r # rs)))"
    using print_table_dicts [OF ws r _ cw, of "Some (Flat (sort (map fst ws)))" "[]" fm]
    by (simp only: print_rows_no_vertical layout_columns.simps layout_details.simps)
  with out ws keys dist show ?thesis by auto
qed

theorem print_table_default_layout_witness:
  "print_table glob [JDict [(''b'', JInt 1), (''a'', JDict [(''c'', JStr ''xy'')])], JDict [(''b'', JInt 22)]] [] None
     = Inr [''A.C  B '', ''===  =='', ''xy   1 '', ''     22'']"
proof -
  let ?r = "JDict [(''b'', JInt 1), (''a'', JDict [(''c'', JStr ''xy'')])]"
  let ?s = "JDict [(''b'', JInt 22)]"
  have h1: "list_all is_dict [?r, ?s]" by simp
  have h2: "\<exists>x\<in>set [?r, ?s]. flat_fields [] x \<noteq> []" by (simp add: flat_fields_def)
  from print_table_default_layout [OF h1 h2, of glob] obtain ws where
      f: "format_all [] [?r, ?s] [] [] = Inr (ws, map (formatted_row_of []) [?r, ?s])"
      and p: "print_table glob [?r, ?s] [] None
               = Inr (header_line (sort_key fst ws) # separator_line (sort_key fst ws)
                      # map (data_line (sort_key fst ws)) (map (formatted_row_of []) [?r, ?s]))"
    by blast
  have "format_all [] [?r, ?s] [] [] = Inr ([(''b'', 2), (''a.c'', 3)], [[(''b'', ''1''), (''a.c'', ''xy'')], [(''b'', ''22'')]])"
    by code_simp
  with f have ws: "ws = [(''b'', 2), (''a.c'', 3)]" by simp
  have "Inr (header_line (sort_key fst [(''b'', 2), (''a.c'', 3::nat)]) # separator_line (sort_key fst [(''b'', 2), (''a.c'', 3)])
                      # map (data_line (sort_key fst [(''b'', 2), (''a.c'', 3)])) (map (formatted_row_of []) [?r, ?s]))
      = (Inr [''A.C  B '', ''===  =='', ''xy   1 '', ''     22''] :: error + string list)"
    by code_simp
  with p ws show ?thesis by simp
qed

subsection \<open>Detail lines\<close>

text \<open>
  Claim C8. With detail patterns in the layout, the output after the header and the separator
  is the blocks of the records (data line and detail lines) joined by one empty line: one
  before the block of each record after the first, none before the first block and none after
  the last. With at least one column no other line of the output is empty.
\<close>

theorem vertical_rows_blank_lines:
  assumes "format_all d (r # rs) [] [] = Inr (ws, rows)" and "is_dict r"
    and "column_widths ws hs = Inr cols" and "vs \<noteq> []"
  shows "print_table fm (r # rs) d (Some (Rows hs vs))
           = Inr (header_line cols # separator_line cols
                  # join [[]] (map (record_block fm cols vs (Max (set (map (longest fm (last rows)) vs)))) rows))
         \<and> length rows = length (r # rs)
         \<and> (hs \<noteq> [] \<longrightarrow> header_line cols \<noteq> [] \<and> separator_line cols \<noteq> []
               \<and> (\<forall>row vw. [] \<notin> set (record_block fm cols vs vw row)))"
proof (intro conjI impI)
  have res: "resolve_layout ws (Some (Rows hs vs)) = Inr (hs, vs)"
    by (simp add: resolve_layout_def)
  from print_table_dicts [OF assms(1,2) res assms(3), of fm] assms(4)
  show "print_table fm (r # rs) d (Some (Rows hs vs))
           = Inr (header_line cols # separator_line cols
                  # join [[]] (map (record_block fm cols vs (Max (set (map (longest fm (last rows)) vs)))) rows))"
    by (simp add: print_rows_blocks)
next
  have dicts: "list_all is_dict (r # rs)"
    using assms(1) format_all_not_dict [of "r # rs" d "[]" "[]"] by auto
  have ok0: "widths_ok []" by (simp add: widths_ok_def)
  from format_all_result [OF dicts, of d "[]" "[]"] assms(1) ok0
  have rows: "rows = map (formatted_row_of d) (r # rs)" and ok: "widths_ok ws" by auto
  from rows show "length rows = length (r # rs)" by simp
  assume hs: "hs \<noteq> []"
  from column_widths_props [OF assms(3)]
  have fst: "map fst cols = hs" and look: "\<forall>c\<in>set cols. map_of ws (fst c) = Some (snd c)" by auto
  from hs fst have cols: "cols \<noteq> []" by auto
  from look ok have pos: "\<forall>c\<in>set cols. 1 \<le> snd c" by (auto simp: widths_ok_def)
  from cols pos have hd: "1 \<le> snd (hd cols)" by simp
  show "header_line cols \<noteq> []"
    unfolding header_line_def using cols hd
    by (intro join_nonempty) (auto simp: hd_map ljust_nonempty split: prod.splits)
  show "separator_line cols \<noteq> []"
    unfolding separator_line_def using cols hd
    by (intro join_nonempty) (auto simp: hd_map split: prod.splits)
  have "data_line cols row \<noteq> []" for row
    unfolding data_line_def using cols hd
    by (intro join_nonempty) (auto simp: hd_map cell_def ljust_nonempty)
  then show "\<forall>row vw. [] \<notin> set (record_block fm cols vs vw row)"
    by (metis record_block_def set_ConsD vertical_lines_nonblank)
qed

theorem vertical_rows_blank_lines_witness:
  "print_table glob
     [JDict [(''n'', JStr ''a''), (''c'', JDict [(''x'', JInt 1)])],
      JDict [(''n'', JStr ''b''), (''c'', JDict [(''x'', JInt 2)])]] []
     (Some (Rows [''n''] [''c.*'']))
     = Inr [''N'', ''='', ''a'', ''    x = 1'', [], ''b'', ''    x = 2'']"
proof -
  let ?r = "JDict [(''n'', JStr ''a''), (''c'', JDict [(''x'', JInt 1)])]"
  let ?s = "JDict [(''n'', JStr ''b''), (''c'', JDict [(''x'', JInt 2)])]"
  let ?rows = "[[(''n'', ''a''), (''c.x'', ''1'')], [(''n'', ''b''), (''c.x'', ''2'')]]"
  have h1: "format_all [] [?r, ?s] [] [] = Inr ([(''n'', 1), (''c.x'', 3)], ?rows)"
    by code_simp
  have h2: "is_dict ?r" by simp
  have h3: "column_widths [(''n'', 1), (''c.x'', 3)] [''n''] = Inr [(''n'', 1)]" by code_simp
  have h4: "[''c.*''] \<noteq> []" by simp
  from vertical_rows_blank_lines [OF h1 h2 h3 h4, of glob]
  have "print_table glob [?r, ?s] [] (Some (Rows [''n''] [''c.*'']))
      = Inr (header_line [(''n'', 1)] # separator_line [(''n'', 1)]
             # join [[]] (map (record_block glob [(''n'', 1)] [''c.*'']
                  (Max (set (map (longest glob (last ?rows)) [''c.*''])))) ?rows))"
    by blast
  also have "\<dots> = Inr [''N'', ''='', ''a'', ''    x = 1'', [], ''b'', ''    x = 2'']"
    by code_simp
  finally show ?thesis .
qed

text \<open>
  Claim C6 fails on the code. \<^verbatim>\<open>longest\<close> reads the variable \<^verbatim>\<open>formatted_row\<close>, which holds
  the row of the last record when the width is computed. The matched name of the first record
  below has 8 characters after its first dot and that of the last record has 1; the detail
  lines are aligned to width 1.
\<close>

theorem vertical_width_from_last_record:
  "print_table glob
     [JDict [(''n'', JStr ''a''), (''c'', JDict [(''longname'', JInt 1)])],
      JDict [(''n'', JStr ''b''), (''c'', JDict [(''x'', JInt 2)])]] []
     (Some (Rows [''n''] [''c.*'']))
     = Inr [''N'', ''='', ''a'', ''    longname = 1'', [], ''b'', ''    x = 2'']
   \<and> longest glob [(''n'', ''a''), (''c.longname'', ''1'')] ''c.*'' = 8
   \<and> longest glob [(''n'', ''b''), (''c.x'', ''2'')] ''c.*'' = 1"
  by code_simp

section \<open>Properties of the configuration compiler\<close>

subsection \<open>Resolving and storing one assignment\<close>

lemma dropWhile_until: "c \<notin> set d \<Longrightarrow> dropWhile (\<lambda>x. x \<noteq> c) (d @ c # r) = c # r"
  by (induction d) auto

lemma split_once_found:
  "c \<notin> set key \<Longrightarrow> split_once c (key @ c # v) = [key, v]"
  by (simp add: split_once_def takeWhile_until dropWhile_until)

lemma split_once_missing: "c \<notin> set s \<Longrightarrow> split_once c s = [s]"
  by (simp add: split_once_def)

lemma str_split_nonempty: "str_split c s \<noteq> []"
  by (induction s) (auto split: list.splits)

lemma str_split_plain: "c \<notin> set s \<Longrightarrow> str_split c s = [s]"
  by (induction s) auto

lemma str_split_append:
  "c \<notin> set seg \<Longrightarrow> str_split c (p @ c # seg) = str_split c p @ [seg]"
  by (induction p) (auto simp: str_split_plain str_split_nonempty split: list.splits)

lemma join_snoc: "xs \<noteq> [] \<Longrightarrow> join sep (xs @ [y]) = join sep xs @ sep @ y"
  by (induction sep xs rule: join.induct) auto

lemma join_str_split: "join [c] (str_split c s) = s"
proof (induction s)
  case Nil
  show ?case by simp
next
  case (Cons x xs)
  show ?case
  proof (cases "x = c")
    case True
    with Cons show ?thesis
      by (cases "str_split c xs") (auto simp: str_split_nonempty)
  next
    case False
    obtain p ps where sp: "str_split c xs = p # ps"
      using str_split_nonempty [of c xs] by (cases "str_split c xs") auto
    with Cons False show ?thesis by (cases ps) auto
  qed
qed

lemma generic_key_last:
  assumes "CHR ''.'' \<notin> set seg"
  shows "generic_key seg = ''KEY''" and "generic_key (p @ ''.'' @ seg) = p @ ''.KEY''"
proof -
  show "generic_key seg = ''KEY''"
    using assms by (simp add: generic_key_def str_split_plain)
  have "str_split (CHR ''.'') (p @ ''.'' @ seg) = str_split (CHR ''.'') p @ [seg]"
    using str_split_append [OF assms, of p] by simp
  then have "generic_key (p @ ''.'' @ seg) = join ''.'' (str_split (CHR ''.'') p @ [''KEY''])"
    by (simp add: generic_key_def)
  also have "\<dots> = join ''.'' (str_split (CHR ''.'') p) @ ''.'' @ ''KEY''"
    by (rule join_snoc) (rule str_split_nonempty)
  finally show "generic_key (p @ ''.'' @ seg) = p @ ''.KEY''"
    using join_str_split [of "CHR ''.''" p] by simp
qed

lemma assign_one_resolved:
  "CHR ''='' \<notin> set key \<Longrightarrow> lookup_option options key = Some sch \<Longrightarrow> truthy sch \<Longrightarrow>
     assign_one pf options (key @ CHR ''='' # v) cfg = store_option pf (key @ CHR ''='' # v) key v sch cfg"
  by (simp add: assign_one_def split_once_found)

lemma assign_one_unknown:
  "CHR ''='' \<notin> set key \<Longrightarrow> lookup_option options key = None \<Longrightarrow>
     assign_one pf options (key @ CHR ''='' # v) cfg = Inl (unsupported_option options key)"
  by (simp add: assign_one_def split_once_found)

lemma assign_one_syntax:
  "CHR ''='' \<notin> set kv \<Longrightarrow> assign_one pf options kv cfg = Inl (invalid_config_value kv)"
  by (simp add: assign_one_def split_once_missing)

lemma fold_err_append:
  "fold_err f (xs @ ys) s = (case fold_err f xs s of Inl e \<Rightarrow> Inl e | Inr t \<Rightarrow> fold_err f ys t)"
  by (induction xs arbitrary: s) (auto split: sum.splits)

lemma assign_all_abort:
  "assign_all pf options pre cfg = Inr c \<Longrightarrow> assign_one pf options kv c = Inl e \<Longrightarrow>
     assign_all pf options (pre @ kv # post) cfg = Inl e"
  by (simp add: assign_all_def fold_err_append)

lemma store_option_ValueError:
  "convert_str_to_value pf sch v = Inl (ValueError m) \<Longrightarrow>
     store_option pf kv key v sch cfg = Inl (UserError (''Invalid value '' @ py_repr kv @ '': '' @ m))"
  by (simp add: store_option_def)

lemma store_option_UserError:
  "convert_str_to_value pf sch v = Inl (UserError m) \<Longrightarrow>
     store_option pf kv key v sch cfg = Inl (UserError m)"
  by (simp add: store_option_def)

lemma convert_integer:
  "subscript sch ''type'' = Inr (JStr ''integer'') \<Longrightarrow>
     convert_str_to_value pf sch v = (case py_int0 v of Inl e \<Rightarrow> Inl e | Inr i \<Rightarrow> Inr (JInt i))"
  by (simp add: convert_str_to_value.simps py_in_def startswith_def)

lemma convert_boolean_invalid:
  "subscript sch ''type'' = Inr (JStr ''boolean'') \<Longrightarrow> v \<notin> {''1'', ''0'', ''true'', ''false''} \<Longrightarrow>
     convert_str_to_value pf sch v
       = Inl (UserError (''Invalid boolean value '' @ py_repr v @ '': expected one of 1, 0, true, false''))"
  by (simp add: convert_str_to_value.simps py_in_def startswith_def boolean_tokens_def)

lemma convert_unsupported:
  "subscript sch ''type'' = Inr (JStr t) \<Longrightarrow>
     \<not> str_in ''string'' t \<Longrightarrow> \<not> str_in ''integer'' t \<Longrightarrow> \<not> str_in ''number'' t \<Longrightarrow>
     \<not> str_in ''boolean'' t \<Longrightarrow> \<not> str_in ''array'' t \<Longrightarrow>
     convert_str_to_value pf sch v
       = Inl (UserError (''Supported for option value type(s) '' @ py_repr t @ '' is unimplemented''))"
  by (simp add: convert_str_to_value.simps py_in_def)

lemma py_int0_error: "py_int0 v = Inl e \<Longrightarrow> \<exists>m. e = ValueError m"
  by (cases "int_literal v") (auto simp: py_int0_def)

lemma convert_number_invalid:
  "subscript sch ''type'' = Inr (JStr ''number'') \<Longrightarrow> pf v = Inl m \<Longrightarrow>
     convert_str_to_value pf sch v = Inl (ValueError m)"
  by (simp add: convert_str_to_value.simps py_in_def startswith_def)

subsection \<open>Lookup of an option\<close>

text \<open>
  Claim C2. For an assignment \<^verbatim>\<open>key=value\<close>, an option stored under the exact key is used;
  when there is none, the option stored under the key with its last dotted part replaced by
  \<^verbatim>\<open>KEY\<close> is used; when there is none either, the assignment fails with the
  \<^verbatim>\<open>UserError\<close> for an unsupported option, whose message lists the names of all options,
  or says \<^verbatim>\<open>none\<close> when there are no options.
\<close>

theorem option_lookup_with_fallback:
  assumes "CHR ''='' \<notin> set key"
  shows "(map_of options key = Some sch \<and> truthy sch \<longrightarrow>
           assign_one pf options (key @ ''='' @ v) cfg = store_option pf (key @ ''='' @ v) key v sch cfg)
       \<and> (map_of options key = None \<and> map_of options (generic_key key) = Some sch \<and> truthy sch \<longrightarrow>
           assign_one pf options (key @ ''='' @ v) cfg = store_option pf (key @ ''='' @ v) key v sch cfg)
       \<and> (map_of options key = None \<and> map_of options (generic_key key) = None \<longrightarrow>
           assign_one pf options (key @ ''='' @ v) cfg
             = Inl (UserError (''Unsupported option '' @ py_repr key @ '', available options: ''
                      @ (if join '', '' (map fst options) = [] then ''none''
                         else join '', '' (map fst options)))))
       \<and> (options = [] \<longrightarrow>
           assign_one pf options (key @ ''='' @ v) cfg
             = Inl (UserError (''Unsupported option '' @ py_repr key @ '', available options: none'')))
       \<and> (CHR ''.'' \<notin> set seg \<longrightarrow>
           generic_key seg = ''KEY'' \<and> generic_key (p @ ''.'' @ seg) = p @ ''.KEY'')"
proof (intro conjI impI)
  assume "map_of options key = Some sch \<and> truthy sch"
  then have "lookup_option options key = Some sch"
    by (simp add: lookup_option_def truthy_opt_def)
  with assms \<open>map_of options key = Some sch \<and> truthy sch\<close>
  show "assign_one pf options (key @ ''='' @ v) cfg = store_option pf (key @ ''='' @ v) key v sch cfg"
    by (simp add: assign_one_resolved)
next
  assume a: "map_of options key = None \<and> map_of options (generic_key key) = Some sch \<and> truthy sch"
  then have "lookup_option options key = Some sch"
    by (simp add: lookup_option_def truthy_opt_def)
  with assms a
  show "assign_one pf options (key @ ''='' @ v) cfg = store_option pf (key @ ''='' @ v) key v sch cfg"
    by (simp add: assign_one_resolved)
next
  assume "map_of options key = None \<and> map_of options (generic_key key) = None"
  then have "lookup_option options key = None"
    by (simp add: lookup_option_def truthy_opt_def)
  with assms show "assign_one pf options (key @ ''='' @ v) cfg
             = Inl (UserError (''Unsupported option '' @ py_repr key @ '', available options: ''
                      @ (if join '', '' (map fst options) = [] then ''none''
                         else join '', '' (map fst options))))"
    by (simp add: assign_one_unknown unsupported_option_def Let_def)
next
  assume "options = []"
  then have "lookup_option options key = None"
    by (simp add: lookup_option_def truthy_opt_def)
  with assms \<open>options = []\<close> show "assign_one pf options (key @ ''='' @ v) cfg
             = Inl (UserError (''Unsupported option '' @ py_repr key @ '', available options: none''))"
    by (simp add: assign_one_unknown unsupported_option_def Let_def)
next
  assume "CHR ''.'' \<notin> set seg"
  then show "generic_key seg = ''KEY''" by (rule generic_key_last(1))
next
  assume "CHR ''.'' \<notin> set seg"
  then show "generic_key (p @ ''.'' @ seg) = p @ ''.KEY''" by (rule generic_key_last(2))
qed

theorem option_lookup_with_fallback_witness:
  "assign_one (\<lambda>s. Inl []) [(''a'', JDict [(''type'', JStr ''string'')])] ''a=1'' (JDict [])
     = Inr (JDict [(''a'', JStr ''1'')])
   \<and> collect_user_config_options
        (JDict [(''patternProperties'', JDict [(''x'', JDict [(''type'', JStr ''string'')])])]) []
     = Inr [(''KEY'', JDict [(''type'', JStr ''string'')])]
   \<and> assign_one (\<lambda>s. Inl []) [(''KEY'', JDict [(''type'', JStr ''string'')])] ''anything=val'' (JDict [])
     = Inr (JDict [(''anything'', JStr ''val'')])
   \<and> assign_one (\<lambda>s. Inl []) [(''a'', JDict [(''type'', JStr ''string'')]), (''b.KEY'', JDict [(''type'', JStr ''string'')])]
        ''nope=1'' (JDict [])
     = Inl (UserError (''Unsupported option '' @ py_repr ''nope'' @ '', available options: a, b.KEY''))
   \<and> assign_one (\<lambda>s. Inl []) [] ''nope=1'' (JDict [])
     = Inl (UserError (''Unsupported option '' @ py_repr ''nope'' @ '', available options: none''))
   \<and> generic_key ''c'' = ''KEY'' \<and> generic_key ''a.b.c'' = ''a.b.KEY''"
proof -
  let ?S = "JDict [(''type'', JStr ''string'')]"
  let ?pf = "\<lambda>s::string. Inl [] :: string + string"
  have k1: "CHR ''='' \<notin> set ''a''" by simp
  have k2: "CHR ''='' \<notin> set ''anything''" by simp
  have k3: "CHR ''='' \<notin> set ''nope''" by simp
  have "store_option ?pf ''a=1'' ''a'' ''1'' ?S (JDict []) = Inr (JDict [(''a'', JStr ''1'')])"
    by code_simp
  with option_lookup_with_fallback [OF k1, where options = "[(''a'', ?S)]" and sch = ?S
      and pf = ?pf and v = "''1''" and cfg = "JDict []"]
  have a: "assign_one ?pf [(''a'', ?S)] ''a=1'' (JDict []) = Inr (JDict [(''a'', JStr ''1'')])"
    by simp
  have b: "collect_user_config_options (JDict [(''patternProperties'', JDict [(''x'', ?S)])]) []
     = Inr [(''KEY'', ?S)]"
    by code_simp
  have g: "generic_key ''anything'' = ''KEY''" by code_simp
  have "store_option ?pf ''anything=val'' ''anything'' ''val'' ?S (JDict [])
      = Inr (JDict [(''anything'', JStr ''val'')])"
    by code_simp
  with option_lookup_with_fallback [OF k2, where options = "[(''KEY'', ?S)]" and sch = ?S
      and pf = ?pf and v = "''val''" and cfg = "JDict []"] g
  have c: "assign_one ?pf [(''KEY'', ?S)] ''anything=val'' (JDict []) = Inr (JDict [(''anything'', JStr ''val'')])"
    by simp
  have g': "generic_key ''nope'' = ''KEY''" by code_simp
  from option_lookup_with_fallback [OF k3, where options = "[(''a'', ?S), (''b.KEY'', ?S)]"
      and pf = ?pf and v = "''1''" and cfg = "JDict []"] g'
  have d: "assign_one ?pf [(''a'', ?S), (''b.KEY'', ?S)] ''nope=1'' (JDict [])
     = Inl (UserError (''Unsupported option '' @ py_repr ''nope'' @ '', available options: a, b.KEY''))"
    by simp
  from option_lookup_with_fallback [OF k3, where options = "[]" and pf = ?pf and v = "''1''"
      and cfg = "JDict []"]
  have e: "assign_one ?pf [] ''nope=1'' (JDict [])
     = Inl (UserError (''Unsupported option '' @ py_repr ''nope'' @ '', available options: none''))"
    by simp
  from option_lookup_with_fallback [OF k1, where seg = "''c''" and p = "''a.b''"]
  have f: "generic_key ''c'' = ''KEY'' \<and> generic_key ''a.b.c'' = ''a.b.KEY''"
    by simp
  from a b c d e f show ?thesis by blast
qed

subsection \<open>Failures of the loop\<close>

lemma map_err_fails: "map_err f xs = Inl e \<Longrightarrow> \<exists>x\<in>set xs. f x = Inl e"
  by (induction xs) (auto split: sum.splits)

lemma typed_schema_type:
  assumes "typed_schema sch"
  obtains ty where "subscript sch ''type'' = Inr ty" and "\<And>s. \<exists>b. py_in s ty = Inr b"
    and "py_in ''array'' ty = Inr True \<Longrightarrow>
           \<exists>items. subscript sch ''items'' = Inr items \<and> typed_schema items"
proof -
  from assms obtain ty where ty: "subscript sch ''type'' = Inr ty"
    by (subst (asm) typed_schema.simps) (auto split: sum.splits)
  with assms have shape: "(\<exists>t. ty = JStr t) \<or> (\<exists>ts. ty = JList ts)"
    by (subst (asm) typed_schema.simps) (auto split: json.splits)
  then have "\<And>s. \<exists>b. py_in s ty = Inr b" by (auto simp: py_in_def)
  moreover from assms ty have "py_in ''array'' ty = Inr True \<Longrightarrow>
           \<exists>items. subscript sch ''items'' = Inr items \<and> typed_schema items"
    by (subst (asm) typed_schema.simps) (auto split: sum.splits)
  ultimately show ?thesis using ty that by blast
qed

lemma user_message_prefix:
  "user_message (UserError (''Invalid config value: '' @ m))"
  "user_message (UserError (''Unsupported option '' @ m))"
  "user_message (UserError (''Invalid value '' @ m))"
  "user_message (UserError (''Invalid boolean value '' @ m))"
  "user_message (UserError (''Supported for option value type(s) '' @ m))"
  by (simp_all add: user_message_def failure_prefixes_def startswith_def)

lemma convert_typed:
  "typed_schema sch \<Longrightarrow> convert_str_to_value pf sch v = Inl e \<Longrightarrow>
     (\<exists>m. e = ValueError m) \<or> user_message e"
proof (induction "size sch" arbitrary: sch v e rule: less_induct)
  case less
  from typed_schema_type [OF less.prems(1)]
  obtain ty where ty: "subscript sch ''type'' = Inr ty" and pin: "\<And>s. \<exists>b. py_in s ty = Inr b"
    and items: "py_in ''array'' ty = Inr True \<Longrightarrow>
           \<exists>items. subscript sch ''items'' = Inr items \<and> typed_schema items"
    by blast
  from pin obtain b where b: "py_in ''string'' ty = Inr b" by blast
  from less.prems(2) ty b
  have conv: "(if b then Inr (JStr v)
     else if py_in ''integer'' ty = Inr True then
       (case py_int0 v of Inl e \<Rightarrow> Inl e | Inr i \<Rightarrow> Inr (JInt i))
     else if py_in ''number'' ty = Inr True then
       (case pf v of Inl msg \<Rightarrow> Inl (ValueError msg) | Inr x \<Rightarrow> Inr (JFloat x))
     else if py_in ''boolean'' ty = Inr True then
       (case map_of boolean_tokens v of
          Some b \<Rightarrow> Inr (JBool b)
        | None \<Rightarrow>
            Inl (UserError (''Invalid boolean value '' @ (py_repr v @ '': expected one of ''
                            @ join '', '' (map fst boolean_tokens)))))
     else if py_in ''array'' ty = Inr True then
       (case subscript sch ''items'' of
          Inl e \<Rightarrow> Inl e
        | Inr items \<Rightarrow>
            (case map_err (convert_str_to_value pf items) (str_split (CHR '','') v) of
               Inl e \<Rightarrow> Inl e
             | Inr vs \<Rightarrow> Inr (JList vs)))
     else Inl (UserError (''Supported for option value type(s) '' @ (repr_json ty
                          @ '' is unimplemented'')))) = Inl e"
    by (subst (asm) convert_str_to_value.simps) simp
  consider (str) "b" | (int) "\<not> b" "py_in ''integer'' ty = Inr True"
    | (num) "\<not> b" "py_in ''integer'' ty \<noteq> Inr True" "py_in ''number'' ty = Inr True"
    | (bool) "\<not> b" "py_in ''integer'' ty \<noteq> Inr True" "py_in ''number'' ty \<noteq> Inr True"
        "py_in ''boolean'' ty = Inr True"
    | (arr) "\<not> b" "py_in ''integer'' ty \<noteq> Inr True" "py_in ''number'' ty \<noteq> Inr True"
        "py_in ''boolean'' ty \<noteq> Inr True" "py_in ''array'' ty = Inr True"
    | (other) "\<not> b" "py_in ''integer'' ty \<noteq> Inr True" "py_in ''number'' ty \<noteq> Inr True"
        "py_in ''boolean'' ty \<noteq> Inr True" "py_in ''array'' ty \<noteq> Inr True"
    by blast
  then show ?case
  proof cases
    case str
    with conv show ?thesis by simp
  next
    case int
    with conv show ?thesis by (auto split: sum.splits dest: py_int0_error)
  next
    case num
    with conv show ?thesis by (auto split: sum.splits)
  next
    case bool
    with conv have "e = UserError (''Invalid boolean value '' @ (py_repr v @ '': expected one of ''
                            @ join '', '' (map fst boolean_tokens)))"
      by (auto split: option.splits)
    then show ?thesis by (simp only: user_message_prefix simp_thms)
  next
    case arr
    from items [OF arr(5)] obtain it where it: "subscript sch ''items'' = Inr it" and t: "typed_schema it"
      by blast
    from arr conv it have "map_err (convert_str_to_value pf it) (str_split (CHR '','') v) = Inl e"
      by (auto split: sum.splits)
    then obtain x where "convert_str_to_value pf it x = Inl e" by (blast dest: map_err_fails)
    moreover from size_subscript [OF it] have "size it < size sch" .
    ultimately show ?thesis using less.hyps t by blast
  next
    case other
    with conv have "e = UserError (''Supported for option value type(s) '' @ (repr_json ty
                          @ '' is unimplemented''))"
      by auto
    then show ?thesis by (simp only: user_message_prefix simp_thms)
  qed
qed

lemma set_path_error: "set_path parts x conf = Inl e \<Longrightarrow> e = TypeError \<or> e = AttributeError"
  by (induction parts x conf rule: set_path.induct) (auto split: json.splits sum.splits)

lemma path_free_empty: "path_free parts (JDict [])"
proof (cases parts)
  case Nil
  then show ?thesis by simp
next
  case (Cons p ps)
  then show ?thesis by (cases ps) auto
qed

lemma set_path_free: "path_free parts conf \<Longrightarrow> \<exists>c. set_path parts x conf = Inr c"
proof (induction parts x conf rule: set_path.induct)
  case (1 v conf)
  show ?case by simp
next
  case (2 part v conf)
  then show ?case by (cases conf) auto
next
  case (3 part p ps v conf)
  from 3(2) obtain kvs where conf: "conf = JDict kvs" by (cases conf) auto
  let ?sub = "case map_of kvs part of None \<Rightarrow> JDict [] | Some sub \<Rightarrow> sub"
  from 3(2) conf have "path_free (p # ps) ?sub"
    by (auto simp: path_free_empty split: option.splits)
  from 3(1) [OF conf this] obtain c where "set_path (p # ps) v ?sub = Inr c" by blast
  with conf show ?case by simp
qed

lemma lookup_option_member: "lookup_option options key = Some sch \<Longrightarrow> sch \<in> snd ` set options"
  by (auto simp: lookup_option_def Let_def split: if_splits dest!: map_of_SomeD intro: rev_image_eqI)

lemma store_option_typed:
  assumes "typed_schema sch" and "store_option pf kv key v sch c = Inl e"
  shows "user_message e \<or> (\<exists>x. set_path (str_split (CHR ''.'') key) x c = Inl e)"
proof (cases "convert_str_to_value pf sch v")
  case (Inr x)
  with assms(2) show ?thesis by (auto simp: store_option_def)
next
  case (Inl e')
  from convert_typed [OF assms(1) Inl] show ?thesis
  proof
    assume "\<exists>m. e' = ValueError m"
    then obtain m where "e' = ValueError m" by blast
    with Inl have "store_option pf kv key v sch c
        = Inl (UserError (''Invalid value '' @ (py_repr kv @ '': '' @ m)))"
      by (simp add: store_option_ValueError)
    with assms(2) have "e = UserError (''Invalid value '' @ (py_repr kv @ '': '' @ m))" by simp
    then show ?thesis by (simp only: user_message_prefix simp_thms)
  next
    assume u: "user_message e'"
    then obtain m where "e' = UserError m" by (cases e') (auto simp: user_message_def)
    with Inl assms(2) u show ?thesis by (auto simp: store_option_UserError)
  qed
qed

lemma assign_one_typed:
  assumes "typed_options options" and "assign_one pf options kv c = Inl e"
  shows "user_message e
     \<or> (\<exists>key v x. kv = key @ CHR ''='' # v \<and> CHR ''='' \<notin> set key
           \<and> set_path (str_split (CHR ''.'') key) x c = Inl e)"
proof (cases "CHR ''='' \<in> set kv")
  case False
  with assms(2) have "e = UserError (''Invalid config value: '' @ (py_repr kv
      @ '', expected '' @ [CHR 0x27] @ ''<KEY>[.<SUBKEY>]=<JSON_VALUE>'' @ [CHR 0x27]))"
    by (simp add: assign_one_syntax invalid_config_value_def)
  then show ?thesis by (simp only: user_message_prefix simp_thms)
next
  case True
  then obtain key v where kv: "kv = key @ CHR ''='' # v" and key: "CHR ''='' \<notin> set key"
    by (auto dest: split_list_first)
  show ?thesis
  proof (cases "lookup_option options key")
    case None
    with assms(2) kv key have "e = unsupported_option options key"
      by (simp add: assign_one_unknown)
    then have "e = UserError (''Unsupported option '' @ (py_repr key @ '', available options: ''
                @ (let names = join '', '' (map fst options) in if names = [] then ''none'' else names)))"
      by (simp add: unsupported_option_def)
    then show ?thesis by (simp only: user_message_prefix simp_thms)
  next
    case (Some sch)
    show ?thesis
    proof (cases "truthy sch")
      case False
      with assms(2) kv key Some have "e = unsupported_option options key"
        by (simp add: assign_one_def split_once_found)
      then have "e = UserError (''Unsupported option '' @ (py_repr key @ '', available options: ''
                @ (let names = join '', '' (map fst options) in if names = [] then ''none'' else names)))"
        by (simp add: unsupported_option_def)
      then show ?thesis by (simp only: user_message_prefix simp_thms)
    next
      case True
      from lookup_option_member [OF Some] assms(1) have ts: "typed_schema sch"
        by (auto simp: typed_options_def list_all_iff)
      from assms(2) have so: "store_option pf (key @ CHR ''='' # v) key v sch c = Inl e"
        unfolding kv assign_one_resolved [OF key Some True] .
      from store_option_typed [OF ts so] show ?thesis
      proof
        assume "user_message e"
        then show ?thesis by (rule disjI1)
      next
        assume "\<exists>x. set_path (str_split (CHR ''.'') key) x c = Inl e"
        then obtain x where "set_path (str_split (CHR ''.'') key) x c = Inl e" ..
        with kv key have "kv = key @ CHR ''='' # v \<and> CHR ''='' \<notin> set key
           \<and> set_path (str_split (CHR ''.'') key) x c = Inl e"
          by simp
        then show ?thesis by (intro disjI2 exI)
      qed
    qed
  qed
qed

lemma same_key:
  assumes "key @ CHR ''='' # v = key' @ CHR ''='' # v'" and "CHR ''='' \<notin> set key" and "CHR ''='' \<notin> set key'"
  shows "key = key'"
proof -
  from assms(2) have "takeWhile (\<lambda>x. x \<noteq> CHR ''='') (key @ CHR ''='' # v) = key"
    by (rule takeWhile_until)
  moreover from assms(3) have "takeWhile (\<lambda>x. x \<noteq> CHR ''='') (key' @ CHR ''='' # v') = key'"
    by (rule takeWhile_until)
  ultimately show ?thesis using assms(1) by simp
qed


text \<open>
  Claim C3, as stated, fails: not every failure of the compilation is an error with a message.
  With the options \<^verbatim>\<open>a.b\<close> and \<^verbatim>\<open>KEY\<close> of type integer, the assignments \<^verbatim>\<open>a=1\<close> and \<^verbatim>\<open>a.b=2\<close>
  raise a \<^verbatim>\<open>TypeError\<close>: the second one walks into the number that the first one stored.
  For an option of type array whose schema has no \<^verbatim>\<open>items\<close> the conversion raises
  \<^verbatim>\<open>KeyError\<close>.
\<close>

theorem compile_raises_other_errors:
  "create_user_config (\<lambda>s. Inl [])
      [(''pg'', JDict [(''user_config_schema'',
          JDict [(''properties'',
                    JDict [(''a'', JDict [(''type'', JStr ''object''),
                                          (''properties'', JDict [(''b'', JDict [(''type'', JStr ''integer'')])])])]),
                 (''patternProperties'', JDict [(''k'', JDict [(''type'', JStr ''integer'')])])])])]
      ''pg'' [''a=1'', ''a.b=2''] [''a=1'', ''a.b=2'']
     = Inl TypeError
   \<and> create_user_config (\<lambda>s. Inl [])
      [(''pg'', JDict [(''user_config_schema'',
          JDict [(''properties'', JDict [(''l'', JDict [(''type'', JStr ''array'')])])])])]
      ''pg'' [''l=1''] [''l=1'']
     = Inl KeyError"
  by code_simp

text \<open>
  Claim C3, amended. After any assignments that were stored, a failing assignment makes the
  whole loop return its error, whatever assignments follow, and the result carries no
  configuration. An assignment without \<^verbatim>\<open>=\<close>, one for an unknown option, one whose value the
  conversion rejects with a \<^verbatim>\<open>ValueError\<close> (integer and number) or a \<^verbatim>\<open>UserError\<close> (boolean),
  and one for an option of an unsupported type each fail with a \<^verbatim>\<open>UserError\<close> with its
  message. When the type of every option is a string or a list, and an option of an array type
  has \<^verbatim>\<open>items\<close> of that kind, every failing assignment fails with a \<^verbatim>\<open>UserError\<close> whose message
  starts with one of the five phrases of the code, or with a \<^verbatim>\<open>TypeError\<close> or an
  \<^verbatim>\<open>AttributeError\<close>; and it is such a \<^verbatim>\<open>UserError\<close> whenever the walk along the parts of the
  key meets no stored value that is not a mapping.
\<close>

theorem compile_failures_abort:
  assumes "assign_all pf options pre cfg = Inr c"
  shows "(CHR ''='' \<notin> set kv \<longrightarrow>
           assign_all pf options (pre @ kv # post) cfg
             = Inl (UserError (''Invalid config value: '' @ py_repr kv @ '', expected '' @ [CHR 0x27]
                      @ ''<KEY>[.<SUBKEY>]=<JSON_VALUE>'' @ [CHR 0x27])))
       \<and> (CHR ''='' \<notin> set key \<and> lookup_option options key = None \<longrightarrow>
           assign_all pf options (pre @ (key @ ''='' @ v) # post) cfg
             = Inl (UserError (''Unsupported option '' @ py_repr key @ '', available options: ''
                      @ (if join '', '' (map fst options) = [] then ''none''
                         else join '', '' (map fst options)))))
       \<and> (CHR ''='' \<notin> set key \<and> lookup_option options key = Some sch \<and> truthy sch
            \<and> convert_str_to_value pf sch v = Inl (ValueError m) \<longrightarrow>
           assign_all pf options (pre @ (key @ ''='' @ v) # post) cfg
             = Inl (UserError (''Invalid value '' @ py_repr (key @ ''='' @ v) @ '': '' @ m)))
       \<and> (CHR ''='' \<notin> set key \<and> lookup_option options key = Some sch \<and> truthy sch
            \<and> convert_str_to_value pf sch v = Inl (UserError m) \<longrightarrow>
           assign_all pf options (pre @ (key @ ''='' @ v) # post) cfg = Inl (UserError m))
       \<and> (subscript sch ''type'' = Inr (JStr ''integer'') \<and> int_literal v = Inl ie \<longrightarrow>
           convert_str_to_value pf sch v = Inl (ValueError (int_error_message v ie)))
       \<and> (subscript sch ''type'' = Inr (JStr ''number'') \<and> pf v = Inl m \<longrightarrow>
           convert_str_to_value pf sch v = Inl (ValueError m))
       \<and> (subscript sch ''type'' = Inr (JStr ''boolean'') \<and> v \<notin> {''1'', ''0'', ''true'', ''false''} \<longrightarrow>
           convert_str_to_value pf sch v
             = Inl (UserError (''Invalid boolean value '' @ py_repr v
                      @ '': expected one of 1, 0, true, false'')))
       \<and> (subscript sch ''type'' = Inr (JStr t) \<and> \<not> str_in ''string'' t \<and> \<not> str_in ''integer'' t
            \<and> \<not> str_in ''number'' t \<and> \<not> str_in ''boolean'' t \<and> \<not> str_in ''array'' t \<longrightarrow>
           convert_str_to_value pf sch v
             = Inl (UserError (''Supported for option value type(s) '' @ py_repr t
                      @ '' is unimplemented'')))
       \<and> (assign_one pf options kv c = Inl e \<longrightarrow>
           assign_all pf options (pre @ kv # post) cfg = Inl e)
       \<and> (typed_options options \<and> assign_one pf options kv c = Inl e \<longrightarrow>
           user_message e \<or> e = TypeError \<or> e = AttributeError)
       \<and> (typed_options options \<and> CHR ''='' \<notin> set key \<and> path_free (str_split (CHR ''.'') key) c
            \<and> assign_one pf options (key @ ''='' @ v) c = Inl e \<longrightarrow>
           user_message e)"
proof (intro conjI impI)
  assume "CHR ''='' \<notin> set kv"
  then have "assign_one pf options kv c = Inl (invalid_config_value kv)"
    by (rule assign_one_syntax)
  from assign_all_abort [OF assms this]
  show "assign_all pf options (pre @ kv # post) cfg
             = Inl (UserError (''Invalid config value: '' @ py_repr kv @ '', expected '' @ [CHR 0x27]
                      @ ''<KEY>[.<SUBKEY>]=<JSON_VALUE>'' @ [CHR 0x27]))"
    by (simp add: invalid_config_value_def)
next
  assume "CHR ''='' \<notin> set key \<and> lookup_option options key = None"
  then have "assign_one pf options (key @ CHR ''='' # v) c = Inl (unsupported_option options key)"
    by (simp add: assign_one_unknown)
  from assign_all_abort [OF assms this]
  show "assign_all pf options (pre @ (key @ ''='' @ v) # post) cfg
             = Inl (UserError (''Unsupported option '' @ py_repr key @ '', available options: ''
                      @ (if join '', '' (map fst options) = [] then ''none''
                         else join '', '' (map fst options))))"
    by (simp add: unsupported_option_def Let_def)
next
  assume a: "CHR ''='' \<notin> set key \<and> lookup_option options key = Some sch \<and> truthy sch
            \<and> convert_str_to_value pf sch v = Inl (ValueError m)"
  then have "assign_one pf options (key @ CHR ''='' # v) c
      = Inl (UserError (''Invalid value '' @ py_repr (key @ CHR ''='' # v) @ '': '' @ m))"
    by (simp add: assign_one_resolved store_option_ValueError)
  from assign_all_abort [OF assms this]
  show "assign_all pf options (pre @ (key @ ''='' @ v) # post) cfg
             = Inl (UserError (''Invalid value '' @ py_repr (key @ ''='' @ v) @ '': '' @ m))"
    by simp
next
  assume a: "CHR ''='' \<notin> set key \<and> lookup_option options key = Some sch \<and> truthy sch
            \<and> convert_str_to_value pf sch v = Inl (UserError m)"
  then have "assign_one pf options (key @ CHR ''='' # v) c = Inl (UserError m)"
    by (simp add: assign_one_resolved store_option_UserError)
  from assign_all_abort [OF assms this]
  show "assign_all pf options (pre @ (key @ ''='' @ v) # post) cfg = Inl (UserError m)"
    by simp
next
  assume a: "subscript sch ''type'' = Inr (JStr ''integer'') \<and> int_literal v = Inl ie"
  then have "py_int0 v = Inl (ValueError (int_error_message v ie))"
    by (simp add: py_int0_def)
  moreover from a have "convert_str_to_value pf sch v = (case py_int0 v of Inl e \<Rightarrow> Inl e | Inr i \<Rightarrow> Inr (JInt i))"
    using convert_integer [of sch pf v] by blast
  ultimately show "convert_str_to_value pf sch v = Inl (ValueError (int_error_message v ie))"
    by (simp only: sum.case)
next
  assume "subscript sch ''type'' = Inr (JStr ''number'') \<and> pf v = Inl m"
  then show "convert_str_to_value pf sch v = Inl (ValueError m)"
    by (simp add: convert_number_invalid)
next
  assume "subscript sch ''type'' = Inr (JStr ''boolean'') \<and> v \<notin> {''1'', ''0'', ''true'', ''false''}"
  then show "convert_str_to_value pf sch v
             = Inl (UserError (''Invalid boolean value '' @ py_repr v
                      @ '': expected one of 1, 0, true, false''))"
    using convert_boolean_invalid [of sch v pf] by simp
next
  assume "subscript sch ''type'' = Inr (JStr t) \<and> \<not> str_in ''string'' t \<and> \<not> str_in ''integer'' t
            \<and> \<not> str_in ''number'' t \<and> \<not> str_in ''boolean'' t \<and> \<not> str_in ''array'' t"
  then show "convert_str_to_value pf sch v
             = Inl (UserError (''Supported for option value type(s) '' @ py_repr t
                      @ '' is unimplemented''))"
    using convert_unsupported [of sch t pf v] by simp
next
  assume "assign_one pf options kv c = Inl e"
  from assign_all_abort [OF assms this]
  show "assign_all pf options (pre @ kv # post) cfg = Inl e" .
next
  assume "typed_options options \<and> assign_one pf options kv c = Inl e"
  then have "user_message e
     \<or> (\<exists>key v x. kv = key @ CHR ''='' # v \<and> CHR ''='' \<notin> set key
           \<and> set_path (str_split (CHR ''.'') key) x c = Inl e)"
    by (intro assign_one_typed) auto
  then show "user_message e \<or> e = TypeError \<or> e = AttributeError"
    using set_path_error by blast
next
  assume a: "typed_options options \<and> CHR ''='' \<notin> set key \<and> path_free (str_split (CHR ''.'') key) c
            \<and> assign_one pf options (key @ ''='' @ v) c = Inl e"
  then have "assign_one pf options (key @ CHR ''='' # v) c = Inl e" by simp
  with a have "user_message e
     \<or> (\<exists>key' v' x. key @ CHR ''='' # v = key' @ CHR ''='' # v' \<and> CHR ''='' \<notin> set key'
           \<and> set_path (str_split (CHR ''.'') key') x c = Inl e)"
    by (intro assign_one_typed) auto
  then show "user_message e"
  proof
    assume "user_message e"
    then show ?thesis .
  next
    assume "\<exists>key' v' x. key @ CHR ''='' # v = key' @ CHR ''='' # v' \<and> CHR ''='' \<notin> set key'
           \<and> set_path (str_split (CHR ''.'') key') x c = Inl e"
    then obtain key' v' x where eq: "key @ CHR ''='' # v = key' @ CHR ''='' # v'"
      and k': "CHR ''='' \<notin> set key'" and sp: "set_path (str_split (CHR ''.'') key') x c = Inl e"
      by blast
    from a have k: "CHR ''='' \<notin> set key" by simp
    from same_key [OF eq k k'] have "key' = key" by simp
    with sp have "set_path (str_split (CHR ''.'') key) x c = Inl e" by simp
    moreover from a have "\<exists>c'. set_path (str_split (CHR ''.'') key) x c = Inr c'"
      by (intro set_path_free) simp
    ultimately show ?thesis by simp
  qed
qed

theorem compile_failures_abort_witness:
  "assign_all (\<lambda>s. Inl ''not a float'')
      [(''n'', JDict [(''type'', JStr ''integer'')]), (''b'', JDict [(''type'', JStr ''boolean'')]),
       (''f'', JDict [(''type'', JStr ''number'')]), (''w'', JDict [(''type'', JStr ''object'')])]
      [''n=1'', ''oops'', ''n=2''] (JDict [])
     = Inl (UserError (''Invalid config value: '' @ py_repr ''oops'' @ '', expected '' @ [CHR 0x27]
              @ ''<KEY>[.<SUBKEY>]=<JSON_VALUE>'' @ [CHR 0x27]))
   \<and> assign_all (\<lambda>s. Inl ''not a float'')
      [(''n'', JDict [(''type'', JStr ''integer'')]), (''b'', JDict [(''type'', JStr ''boolean'')]),
       (''f'', JDict [(''type'', JStr ''number'')]), (''w'', JDict [(''type'', JStr ''object'')])]
      [''n=1'', ''x.y=3'', ''n=2''] (JDict [])
     = Inl (UserError (''Unsupported option '' @ py_repr ''x.y'' @ '', available options: n, b, f, w''))
   \<and> assign_all (\<lambda>s. Inl ''not a float'')
      [(''n'', JDict [(''type'', JStr ''integer'')]), (''b'', JDict [(''type'', JStr ''boolean'')]),
       (''f'', JDict [(''type'', JStr ''number'')]), (''w'', JDict [(''type'', JStr ''object'')])]
      [''n=1'', ''n=abc'', ''n=2''] (JDict [])
     = Inl (UserError (''Invalid value '' @ py_repr ''n=abc'' @ '': ''
              @ ''invalid literal for int() with base 0: '' @ py_repr ''abc''))
   \<and> assign_all (\<lambda>s. Inl ''not a float'')
      [(''n'', JDict [(''type'', JStr ''integer'')]), (''b'', JDict [(''type'', JStr ''boolean'')]),
       (''f'', JDict [(''type'', JStr ''number'')]), (''w'', JDict [(''type'', JStr ''object'')])]
      [''n=1'', ''f=abc'', ''n=2''] (JDict [])
     = Inl (UserError (''Invalid value '' @ py_repr ''f=abc'' @ '': not a float''))
   \<and> assign_all (\<lambda>s. Inl ''not a float'')
      [(''n'', JDict [(''type'', JStr ''integer'')]), (''b'', JDict [(''type'', JStr ''boolean'')]),
       (''f'', JDict [(''type'', JStr ''number'')]), (''w'', JDict [(''type'', JStr ''object'')])]
      [''n=1'', ''b=yes'', ''n=2''] (JDict [])
     = Inl (UserError (''Invalid boolean value '' @ py_repr ''yes'' @ '': expected one of 1, 0, true, false''))
   \<and> assign_all (\<lambda>s. Inl ''not a float'')
      [(''n'', JDict [(''type'', JStr ''integer'')]), (''b'', JDict [(''type'', JStr ''boolean'')]),
       (''f'', JDict [(''type'', JStr ''number'')]), (''w'', JDict [(''type'', JStr ''object'')])]
      [''n=1'', ''w=1'', ''n=2''] (JDict [])
     = Inl (UserError (''Supported for option value type(s) '' @ py_repr ''object'' @ '' is unimplemented''))
   \<and> assign_all (\<lambda>s. Inl ''not a float'')
      [(''a.b'', JDict [(''type'', JStr ''integer'')]), (''KEY'', JDict [(''type'', JStr ''integer'')])]
      [''a=1'', ''a.b=2'', ''c=3''] (JDict [])
     = Inl TypeError
   \<and> user_message (UserError (''Invalid config value: '' @ py_repr ''oops'' @ '', expected '' @ [CHR 0x27]
              @ ''<KEY>[.<SUBKEY>]=<JSON_VALUE>'' @ [CHR 0x27]))
   \<and> user_message (UserError (''Invalid boolean value '' @ py_repr ''yes''
              @ '': expected one of 1, 0, true, false''))"
proof -
  let ?pf = "\<lambda>s::string. Inl ''not a float'' :: string + string"
  let ?N = "JDict [(''type'', JStr ''integer'')]"
  let ?B = "JDict [(''type'', JStr ''boolean'')]"
  let ?F = "JDict [(''type'', JStr ''number'')]"
  let ?W = "JDict [(''type'', JStr ''object'')]"
  let ?opts = "[(''n'', ?N), (''b'', ?B), (''f'', ?F), (''w'', ?W)]"
  have pre: "assign_all ?pf ?opts [''n=1''] (JDict []) = Inr (JDict [(''n'', JInt 1)])"
    by code_simp
  note t = compile_failures_abort [OF pre, where post = "[''n=2'']"]
  have a: "assign_all ?pf ?opts [''n=1'', ''oops'', ''n=2''] (JDict [])
     = Inl (UserError (''Invalid config value: '' @ py_repr ''oops'' @ '', expected '' @ [CHR 0x27]
              @ ''<KEY>[.<SUBKEY>]=<JSON_VALUE>'' @ [CHR 0x27]))"
    using t [where kv = "''oops''"] by simp
  have lx: "lookup_option ?opts ''x.y'' = None" by code_simp
  have b: "assign_all ?pf ?opts [''n=1'', ''x.y=3'', ''n=2''] (JDict [])
     = Inl (UserError (''Unsupported option '' @ py_repr ''x.y'' @ '', available options: n, b, f, w''))"
    using t [where key = "''x.y''" and v = "''3''"] lx by simp
  have ln: "lookup_option ?opts ''n'' = Some ?N" by code_simp
  have sn: "subscript ?N ''type'' = Inr (JStr ''integer'')" by code_simp
  have pn: "int_literal ''abc'' = Inl InvalidLiteral" by code_simp
  from t [where sch = ?N and v = "''abc''" and ie = InvalidLiteral] sn pn
  have cn: "convert_str_to_value ?pf ?N ''abc''
      = Inl (ValueError (int_error_message ''abc'' InvalidLiteral))"
    by blast
  have "int_error_message ''abc'' InvalidLiteral
      = ''invalid literal for int() with base 0: '' @ py_repr ''abc''"
    by code_simp
  with cn have cn': "convert_str_to_value ?pf ?N ''abc''
      = Inl (ValueError (''invalid literal for int() with base 0: '' @ py_repr ''abc''))"
    by simp
  have c: "assign_all ?pf ?opts [''n=1'', ''n=abc'', ''n=2''] (JDict [])
     = Inl (UserError (''Invalid value '' @ py_repr ''n=abc'' @ '': ''
              @ ''invalid literal for int() with base 0: '' @ py_repr ''abc''))"
    using t [where key = "''n''" and v = "''abc''" and sch = ?N
        and m = "''invalid literal for int() with base 0: '' @ py_repr ''abc''"] ln cn'
    by simp
  have lf: "lookup_option ?opts ''f'' = Some ?F" by code_simp
  have sf: "subscript ?F ''type'' = Inr (JStr ''number'')" by code_simp
  from t [where sch = ?F and v = "''abc''" and m = "''not a float''"] sf
  have cf: "convert_str_to_value ?pf ?F ''abc'' = Inl (ValueError ''not a float'')"
    by blast
  have d: "assign_all ?pf ?opts [''n=1'', ''f=abc'', ''n=2''] (JDict [])
     = Inl (UserError (''Invalid value '' @ py_repr ''f=abc'' @ '': not a float''))"
    using t [where key = "''f''" and v = "''abc''" and sch = ?F and m = "''not a float''"] lf cf
    by simp
  have lb: "lookup_option ?opts ''b'' = Some ?B" by code_simp
  have sb: "subscript ?B ''type'' = Inr (JStr ''boolean'')" by code_simp
  from t [where sch = ?B and v = "''yes''"] sb
  have cb: "convert_str_to_value ?pf ?B ''yes''
      = Inl (UserError (''Invalid boolean value '' @ py_repr ''yes'' @ '': expected one of 1, 0, true, false''))"
    by simp
  have e: "assign_all ?pf ?opts [''n=1'', ''b=yes'', ''n=2''] (JDict [])
     = Inl (UserError (''Invalid boolean value '' @ py_repr ''yes'' @ '': expected one of 1, 0, true, false''))"
    using t [where key = "''b''" and v = "''yes''" and sch = ?B
        and m = "''Invalid boolean value '' @ py_repr ''yes'' @ '': expected one of 1, 0, true, false''"] lb cb
    by simp
  have lw: "lookup_option ?opts ''w'' = Some ?W" by code_simp
  have sw: "subscript ?W ''type'' = Inr (JStr ''object'')" by code_simp
  have nw: "\<not> str_in ''string'' ''object'' \<and> \<not> str_in ''integer'' ''object''
            \<and> \<not> str_in ''number'' ''object'' \<and> \<not> str_in ''boolean'' ''object'' \<and> \<not> str_in ''array'' ''object''"
    by code_simp
  from t [where sch = ?W and v = "''1''" and t = "''object''"] sw nw
  have cw: "convert_str_to_value ?pf ?W ''1''
      = Inl (UserError (''Supported for option value type(s) '' @ py_repr ''object'' @ '' is unimplemented''))"
    by blast
  have f: "assign_all ?pf ?opts [''n=1'', ''w=1'', ''n=2''] (JDict [])
     = Inl (UserError (''Supported for option value type(s) '' @ py_repr ''object'' @ '' is unimplemented''))"
    using t [where key = "''w''" and v = "''1''" and sch = ?W
        and m = "''Supported for option value type(s) '' @ py_repr ''object'' @ '' is unimplemented''"] lw cw
    by simp
  let ?opts2 = "[(''a.b'', ?N), (''KEY'', ?N)]"
  have pre2: "assign_all ?pf ?opts2 [''a=1''] (JDict []) = Inr (JDict [(''a'', JInt 1)])"
    by code_simp
  have a2: "assign_one ?pf ?opts2 ''a.b=2'' (JDict [(''a'', JInt 1)]) = Inl TypeError"
    by code_simp
  from compile_failures_abort [OF pre2, where post = "[''c=3'']" and kv = "''a.b=2''" and e = TypeError] a2
  have g: "assign_all ?pf ?opts2 [''a=1'', ''a.b=2'', ''c=3''] (JDict []) = Inl TypeError"
    by simp
  have to: "typed_options ?opts" by code_simp
  have ao: "assign_one ?pf ?opts ''oops'' (JDict [(''n'', JInt 1)])
     = Inl (UserError (''Invalid config value: '' @ py_repr ''oops'' @ '', expected '' @ [CHR 0x27]
              @ ''<KEY>[.<SUBKEY>]=<JSON_VALUE>'' @ [CHR 0x27]))"
    by code_simp
  note t10 = t [THEN conjunct2, THEN conjunct2, THEN conjunct2, THEN conjunct2, THEN conjunct2,
      THEN conjunct2, THEN conjunct2, THEN conjunct2, THEN conjunct2, THEN conjunct1, THEN mp]
  note t11 = t [THEN conjunct2, THEN conjunct2, THEN conjunct2, THEN conjunct2, THEN conjunct2,
      THEN conjunct2, THEN conjunct2, THEN conjunct2, THEN conjunct2, THEN conjunct2, THEN mp]
  from t10 [OF conjI [OF to ao]]
  have h: "user_message (UserError (''Invalid config value: '' @ py_repr ''oops'' @ '', expected '' @ [CHR 0x27]
              @ ''<KEY>[.<SUBKEY>]=<JSON_VALUE>'' @ [CHR 0x27]))"
    by simp
  have pf: "path_free (str_split (CHR ''.'') ''b'') (JDict [(''n'', JInt 1)])" by code_simp
  have ab: "assign_one ?pf ?opts (''b'' @ ''='' @ ''yes'') (JDict [(''n'', JInt 1)])
     = Inl (UserError (''Invalid boolean value '' @ py_repr ''yes''
              @ '': expected one of 1, 0, true, false''))"
    by code_simp
  have kb: "CHR ''='' \<notin> set ''b''" by simp
  from t11 [OF conjI [OF to conjI [OF kb conjI [OF pf ab]]]]
  have i: "user_message (UserError (''Invalid boolean value '' @ py_repr ''yes''
              @ '': expected one of 1, 0, true, false''))" .
  from a b c d e f g h i show ?thesis by (intro conjI)
qed

subsection \<open>Integer literals\<close>

lemma digit_value_lt10: "digit_value c < 10 \<longleftrightarrow> is_digit c"
  by (auto simp: digit_value_def is_digit_def less_eq_char_def)

lemma is_digit_not_space: "is_digit c \<Longrightarrow> \<not> is_space c"
  by (auto simp: is_digit_def is_space_def less_eq_char_def)

lemma digit_value_underscore: "digit_value (CHR ''_'') = 37"
  by (simp add: digit_value_def less_eq_char_def)

lemma digit_value_not_space: "digit_value c < 37 \<Longrightarrow> \<not> is_space c"
  by (auto simp: digit_value_def is_space_def less_eq_char_def split: if_splits)

lemma underscore_not_space: "\<not> is_space (CHR ''_'')"
  by (simp add: is_space_def)

lemma digit_groups_iff:
  assumes "\<not> P (CHR ''_'')"
  shows "digit_groups P w \<longleftrightarrow>
     w \<noteq> [] \<and> list_all (\<lambda>c. P c \<or> c = CHR ''_'') w \<and> hd w \<noteq> CHR ''_'' \<and> underscores_ok w"
  using assms
proof (induction P w rule: digit_groups.induct)
  case (1 P)
  show ?case by simp
next
  case (2 P c)
  then show ?case by auto
next
  case (3 P c d cs)
  show ?case
  proof (cases "d = CHR ''_''")
    case True
    with 3 show ?thesis by (cases cs) auto
  next
    case False
    with 3 show ?thesis by auto
  qed
qed

lemma dropWhile_snoc: "\<not> P c \<Longrightarrow> dropWhile P (xs @ [c]) = dropWhile P xs @ [c]"
  by (induction xs) auto

lemma rstrip_Nil: "rstrip [] = []"
  by (simp add: rstrip_def)

lemma rstrip_Cons: "\<not> is_space c \<Longrightarrow> rstrip (c # r) = c # rstrip r"
  by (simp add: rstrip_def dropWhile_snoc)

lemma rstrip_decomp: "\<exists>ws. s = rstrip s @ ws \<and> list_all is_space ws"
proof -
  have "s = rstrip s @ rev (takeWhile is_space (rev s))"
    unfolding rstrip_def by (metis rev_append rev_rev_ident takeWhile_dropWhile_id)
  moreover have "list_all is_space (rev (takeWhile is_space (rev s)))"
    by (auto simp: list_all_iff dest: set_takeWhileD)
  ultimately show ?thesis by blast
qed

lemma rstrip_append_spaces:
  assumes "list_all is_space ws" and "w = [] \<or> \<not> is_space (last w)"
  shows "rstrip (w @ ws) = w"
proof -
  have "dropWhile is_space (rev ws @ rev w) = dropWhile is_space (rev w)"
    using assms(1) by (intro dropWhile_append2) (auto simp: list_all_iff)
  also have "\<dots> = rev w"
    using assms(2) by (cases "rev w") (auto simp: last_rev [symmetric] simp del: last_rev)
  finally show ?thesis by (simp add: rstrip_def)
qed

lemma hd_rstrip: "rstrip r \<noteq> [] \<Longrightarrow> hd (rstrip r) = hd r"
proof -
  assume ne: "rstrip r \<noteq> []"
  obtain ws where "r = rstrip r @ ws" using rstrip_decomp by blast
  then have "hd r = hd (rstrip r @ ws)" by simp
  with ne show ?thesis by simp
qed


lemma takeWhile_all: "list_all P xs \<Longrightarrow> takeWhile P xs = xs"
  by (induction xs) auto

lemma dropWhile_all: "list_all P xs \<Longrightarrow> dropWhile P xs = []"
  by (induction xs) auto

lemma takeWhile_run:
  "list_all P w \<Longrightarrow> list_all (\<lambda>c. \<not> P c) ws \<Longrightarrow> takeWhile P (w @ ws) = w"
  by (induction w) (auto, cases ws, auto)

lemma dropWhile_run:
  "list_all P w \<Longrightarrow> list_all (\<lambda>c. \<not> P c) ws \<Longrightarrow> dropWhile P (w @ ws) = ws"
  by (induction w) (auto, cases ws, auto)

lemma scan_digits_split:
  assumes "b \<le> 36" and "list_all (\<lambda>c. digit_value c < b \<or> c = CHR ''_'') w"
    and "list_all is_space ws"
  shows "scan_digits b z (w @ ws) =
     (if w = [] \<or> hd w = CHR ''_'' \<or> \<not> underscores_ok w then Inl InvalidLiteral
      else if b = 10 \<and> 4300 < length (digits_of w) then Inl (ExceedsLimit (length (digits_of w)))
      else if z \<and> digits_value b (digits_of w) \<noteq> 0 then Inl InvalidLiteral
      else Inr (digits_value b (digits_of w)))"
proof -
  have nq: "list_all (\<lambda>c. \<not> (digit_value c < b \<or> c = CHR ''_'')) ws"
    using assms(1,3) digit_value_not_space underscore_not_space
    by (fastforce simp: list_all_iff)
  have tw: "takeWhile (\<lambda>c. digit_value c < b \<or> c = CHR ''_'') (w @ ws) = w"
    by (rule takeWhile_run [OF assms(2) nq])
  have dw: "dropWhile (\<lambda>c. digit_value c < b \<or> c = CHR ''_'') (w @ ws) = ws"
    by (rule dropWhile_run [OF assms(2) nq])
  have sp: "dropWhile is_space ws = []"
    by (rule dropWhile_all [OF assms(3)])
  show ?thesis
    unfolding scan_digits_def Let_def tw dw sp digits_of_def by simp
qed

lemma scan_digits_run:
  assumes "b \<le> 36" and "scan_digits b z u = Inr n"
  shows "list_all (\<lambda>c. digit_value c < b \<or> c = CHR ''_'') (rstrip u)"
proof -
  let ?Q = "\<lambda>c. digit_value c < b \<or> c = CHR ''_''"
  let ?run = "takeWhile ?Q u"
  let ?rest = "dropWhile ?Q u"
  from assms(2) have ne: "?run \<noteq> []" and sp: "dropWhile is_space ?rest = []"
    by (auto simp: scan_digits_def Let_def split: if_splits)
  from sp have spaces: "list_all is_space ?rest"
    by (simp add: list_all_iff dropWhile_eq_Nil_conv)
  have q: "list_all ?Q ?run"
    by (auto simp: list_all_iff dest: set_takeWhileD)
  from ne have "last ?run \<in> set ?run" by simp
  with q have "?Q (last ?run)" by (simp add: list_all_iff del: last_in_set)
  with assms(1) have "\<not> is_space (last ?run)"
    using digit_value_not_space [of "last ?run"] underscore_not_space by auto
  then have "rstrip (?run @ ?rest) = ?run"
    by (intro rstrip_append_spaces [OF spaces]) simp
  then have "rstrip u = ?run" by simp
  with q show ?thesis by simp
qed

lemma scan_digits_iff:
  assumes "b \<le> 36"
  shows "scan_digits b z u = Inr n \<longleftrightarrow>
     digit_groups (\<lambda>c. digit_value c < b) (rstrip u)
     \<and> (b = 10 \<longrightarrow> length (digits_of (rstrip u)) \<le> 4300)
     \<and> (z \<longrightarrow> digits_value b (digits_of (rstrip u)) = 0)
     \<and> n = digits_value b (digits_of (rstrip u))"
proof -
  obtain ws where u: "u = rstrip u @ ws" and ws: "list_all is_space ws"
    using rstrip_decomp by blast
  from assms have nu: "\<not> digit_value (CHR ''_'') < b"
    by (simp add: digit_value_underscore)
  note dg = digit_groups_iff [of "\<lambda>c. digit_value c < b" "rstrip u", OF nu]
  show ?thesis
  proof (cases "list_all (\<lambda>c. digit_value c < b \<or> c = CHR ''_'') (rstrip u)")
    case True
    from scan_digits_split [OF assms True ws, of z] u
    have "scan_digits b z u =
       (if rstrip u = [] \<or> hd (rstrip u) = CHR ''_'' \<or> \<not> underscores_ok (rstrip u) then Inl InvalidLiteral
        else if b = 10 \<and> 4300 < length (digits_of (rstrip u))
        then Inl (ExceedsLimit (length (digits_of (rstrip u))))
        else if z \<and> digits_value b (digits_of (rstrip u)) \<noteq> 0 then Inl InvalidLiteral
        else Inr (digits_value b (digits_of (rstrip u))))"
      by simp
    with True dg show ?thesis by (auto split: if_splits)
  next
    case False
    with scan_digits_run [OF assms] have "scan_digits b z u \<noteq> Inr n" by blast
    with False dg show ?thesis by simp
  qed
qed

lemma scan_digits_limit: "scan_digits b z u = Inl (ExceedsLimit d) \<Longrightarrow> 4300 < d"
  by (auto simp: scan_digits_def Let_def split: if_splits)

lemma int_unsigned_limit: "int_unsigned u = Inl (ExceedsLimit d) \<Longrightarrow> 4300 < d"
  unfolding int_unsigned_def by (rule scan_digits_limit)

lemma int_literal_limit: "int_literal s = Inl (ExceedsLimit d) \<Longrightarrow> 4300 < d"
  by (auto simp: int_literal_def Let_def split: if_splits sum.splits dest: int_unsigned_limit)


lemma digit_value_zero: "is_digit c \<Longrightarrow> digit_value c = 0 \<longleftrightarrow> c = CHR ''0''"
proof -
  assume d: "is_digit c"
  show ?thesis
  proof
    assume "digit_value c = 0"
    with d have "of_char c = (48::nat)"
      by (auto simp: digit_value_def is_digit_def less_eq_char_def)
    then have "(of_char c :: nat) = of_char (CHR ''0'')" by simp
    then show "c = CHR ''0''" by (simp only: of_char_eq_iff)
  next
    assume "c = CHR ''0''"
    then show "digit_value c = 0" by (simp add: digit_value_def less_eq_char_def)
  qed
qed

lemma fold_digits_zero:
  "list_all is_digit ds \<Longrightarrow>
     fold (\<lambda>c acc. acc * 10 + digit_value c) ds a = 0 \<longleftrightarrow> a = 0 \<and> list_all (\<lambda>c. c = CHR ''0'') ds"
  by (induction ds arbitrary: a) (auto simp: digit_value_zero)

lemma digits_value_zero:
  "list_all is_digit ds \<Longrightarrow> digits_value 10 ds = 0 \<longleftrightarrow> list_all (\<lambda>c. c = CHR ''0'') ds"
  by (simp add: digits_value_def fold_digits_zero)

lemma digit_groups_digits:
  assumes "digit_groups is_digit w"
  shows "list_all is_digit (digits_of w)"
proof -
  have "\<not> is_digit (CHR ''_'')" by (simp add: is_digit_def less_eq_char_def)
  from digit_groups_iff [of is_digit w, OF this] assms
  have "list_all (\<lambda>c. is_digit c \<or> c = CHR ''_'') w" by simp
  then show ?thesis by (auto simp: digits_of_def list_all_iff)
qed

lemma digit_groups_hd: "digit_groups P w \<Longrightarrow> P (hd w)"
  by (induction P w rule: digit_groups.induct) auto

lemma digit_groups_second: "digit_groups P (c # d # r) \<Longrightarrow> d \<noteq> CHR ''_'' \<Longrightarrow> P d"
  using digit_groups_hd [of P "d # r"] by simp

lemma is_digit_lt10: "is_digit = (\<lambda>c. digit_value c < 10)"
  by (rule ext) (simp add: digit_value_lt10)

lemma prefix_letter_facts:
  assumes "prefix_letter d"
  shows "\<not> is_space d" and "\<not> is_digit d" and "d \<noteq> CHR ''_''"
  using assms by (auto simp: prefix_letter_def is_space_def is_digit_def less_eq_char_def)

lemma zero_not_space: "\<not> is_space (CHR ''0'')"
  by (simp add: is_space_def)

lemma int_base_plain:
  assumes "u = [] \<or> hd u \<noteq> CHR ''0''"
  shows "int_base u = (10, False)"
  using assms by (cases u) (auto simp: int_base_def)

lemma int_base_zero:
  assumes "cs = [] \<or> \<not> prefix_letter (hd cs)"
  shows "int_base (CHR ''0'' # cs) = (10, True)"
  using assms by (cases cs) (auto simp: int_base_def prefix_letter_def)

lemma int_base_prefix:
  "int_base (CHR ''0'' # d # r) =
     (if d = CHR ''x'' \<or> d = CHR ''X'' then (16, False)
      else if d = CHR ''o'' \<or> d = CHR ''O'' then (8, False)
      else if d = CHR ''b'' \<or> d = CHR ''B'' then (2, False)
      else (10, True))"
  by (simp add: int_base_def)

lemma not_prefixed_plain:
  assumes "w = [] \<or> hd w \<noteq> CHR ''0''"
  shows "\<not> prefixed_text b x y w"
  using assms by (cases w) (auto simp: prefixed_text_def)

lemma not_prefixed_zero:
  assumes "cs = [] \<or> \<not> prefix_letter (hd cs)" and "prefix_letter x" and "prefix_letter y"
  shows "\<not> prefixed_text b x y (CHR ''0'' # cs)"
  using assms by (cases cs) (auto simp: prefixed_text_def)

lemma int_unsigned_plain:
  assumes "u = [] \<or> hd u \<noteq> CHR ''0''"
  shows "int_unsigned u = Inr n \<longleftrightarrow>
     decimal_text (rstrip u) \<and> n = digits_value 10 (digits_of (rstrip u))"
proof -
  have w: "rstrip u = [] \<or> hd (rstrip u) \<noteq> CHR ''0''"
    using assms hd_rstrip [of u] by (auto simp: rstrip_Nil)
  have "int_unsigned u = scan_digits 10 False u"
    by (simp add: int_unsigned_def int_base_plain [OF assms] skip_prefix_def)
  moreover have "digit_groups is_digit (rstrip u) \<Longrightarrow> rstrip u \<noteq> []" by auto
  ultimately show ?thesis
    using w by (auto simp: scan_digits_iff decimal_text_def is_digit_lt10)
qed

lemma int_unsigned_zero:
  assumes "cs = [] \<or> \<not> prefix_letter (hd cs)"
  shows "int_unsigned (CHR ''0'' # cs) = Inr n \<longleftrightarrow>
     decimal_text (rstrip (CHR ''0'' # cs))
     \<and> n = digits_value 10 (digits_of (rstrip (CHR ''0'' # cs)))"
proof -
  let ?w = "rstrip (CHR ''0'' # cs)"
  have hd: "hd ?w = CHR ''0''" by (simp add: rstrip_Cons zero_not_space)
  have scan: "int_unsigned (CHR ''0'' # cs) = scan_digits 10 True (CHR ''0'' # cs)"
    by (simp add: int_unsigned_def int_base_zero [OF assms] skip_prefix_def)
  have z: "digit_groups is_digit ?w \<Longrightarrow>
      digits_value 10 (digits_of ?w) = 0 \<longleftrightarrow> list_all (\<lambda>c. c = CHR ''0'') (digits_of ?w)"
    by (rule digits_value_zero) (rule digit_groups_digits)
  show ?thesis
    unfolding scan decimal_text_def
    using hd z by (auto simp: scan_digits_iff is_digit_lt10 [symmetric])
qed

lemma rstrip_after_underscore:
  "rstrip (if r \<noteq> [] \<and> hd r = CHR ''_'' then tl r else r)
     = (if rstrip r \<noteq> [] \<and> hd (rstrip r) = CHR ''_'' then tl (rstrip r) else rstrip r)"
proof (cases "r \<noteq> [] \<and> hd r = CHR ''_''")
  case True
  then obtain r' where "r = CHR ''_'' # r'" by (cases r) auto
  then show ?thesis by (simp add: rstrip_Cons underscore_not_space)
next
  case False
  then have "rstrip r = [] \<or> hd (rstrip r) \<noteq> CHR ''_''"
    using hd_rstrip [of r] by (auto simp: rstrip_Nil)
  with False show ?thesis by auto
qed

lemma digits_of_after_underscore:
  "digits_of (if r \<noteq> [] \<and> hd r = CHR ''_'' then tl r else r) = digits_of r"
  by (cases r) (auto simp: digits_of_def)

lemma int_unsigned_prefixed:
  assumes "int_base (CHR ''0'' # d # r) = (b, False)" and "b \<noteq> 10" and "b \<le> 36"
    and "\<not> is_space d"
  shows "int_unsigned (CHR ''0'' # d # r) = Inr n \<longleftrightarrow>
     digit_groups (\<lambda>c. digit_value c < b) (after_prefix (rstrip (CHR ''0'' # d # r)))
     \<and> n = digits_value b (digits_of (drop 2 (rstrip (CHR ''0'' # d # r))))"
proof -
  let ?r' = "if r \<noteq> [] \<and> hd r = CHR ''_'' then tl r else r"
  have w: "rstrip (CHR ''0'' # d # r) = CHR ''0'' # d # rstrip r"
    using assms(4) by (simp add: rstrip_Cons zero_not_space)
  have scan: "int_unsigned (CHR ''0'' # d # r) = scan_digits b False ?r'"
    using assms(2) by (simp add: int_unsigned_def assms(1) skip_prefix_def)
  have ap: "after_prefix (CHR ''0'' # d # rstrip r) = rstrip ?r'"
    by (simp add: after_prefix_def rstrip_after_underscore)
  have dg: "digits_of (rstrip ?r') = digits_of (rstrip r)"
    unfolding rstrip_after_underscore by (rule digits_of_after_underscore)
  show ?thesis
    unfolding scan w ap scan_digits_iff [OF assms(3)]
    using assms(2) dg by auto
qed

lemma not_decimal_prefixed:
  assumes "prefix_letter d"
  shows "\<not> decimal_text (CHR ''0'' # d # r)"
  using assms digit_groups_second [of is_digit "CHR ''0''" d r]
  by (auto simp: decimal_text_def dest: prefix_letter_facts)

lemma prefixed_text_Cons:
  "prefixed_text b x y (CHR ''0'' # d # r) \<longleftrightarrow>
     (d = x \<or> d = y) \<and> digit_groups (\<lambda>c. digit_value c < b) (after_prefix (CHR ''0'' # d # r))"
  by (auto simp: prefixed_text_def)

lemma unsigned_prefixed:
  assumes "w = CHR ''0'' # d # r" and "prefix_letter d"
  shows "unsigned_text w \<and> n = unsigned_value w \<longleftrightarrow>
     (if d = CHR ''x'' \<or> d = CHR ''X''
      then digit_groups (\<lambda>c. digit_value c < 16) (after_prefix w)
           \<and> n = digits_value 16 (digits_of (drop 2 w))
      else if d = CHR ''o'' \<or> d = CHR ''O''
      then digit_groups (\<lambda>c. digit_value c < 8) (after_prefix w)
           \<and> n = digits_value 8 (digits_of (drop 2 w))
      else digit_groups (\<lambda>c. digit_value c < 2) (after_prefix w)
           \<and> n = digits_value 2 (digits_of (drop 2 w)))"
proof -
  note nd = not_decimal_prefixed [OF assms(2), of r]
  note pt = prefixed_text_Cons [of _ _ _ d r]
  from assms(2) consider "d = CHR ''x'' \<or> d = CHR ''X''" | "d = CHR ''o'' \<or> d = CHR ''O''"
    | "d = CHR ''b'' \<or> d = CHR ''B''"
    by (auto simp: prefix_letter_def)
  then show ?thesis
  proof cases
    case 1
    then have "\<not> prefixed_text 8 (CHR ''o'') (CHR ''O'') w" "\<not> prefixed_text 2 (CHR ''b'') (CHR ''B'') w"
      "prefixed_text 16 (CHR ''x'') (CHR ''X'') w
         \<longleftrightarrow> digit_groups (\<lambda>c. digit_value c < 16) (after_prefix w)"
      unfolding assms(1) pt by auto
    with 1 nd show ?thesis
      unfolding unsigned_text_def unsigned_value_def assms(1) [symmetric]
      by (auto simp add: assms(1) [symmetric])
  next
    case 2
    then have "\<not> prefixed_text 16 (CHR ''x'') (CHR ''X'') w" "\<not> prefixed_text 2 (CHR ''b'') (CHR ''B'') w"
      "prefixed_text 8 (CHR ''o'') (CHR ''O'') w
         \<longleftrightarrow> digit_groups (\<lambda>c. digit_value c < 8) (after_prefix w)"
      unfolding assms(1) pt by auto
    with 2 nd show ?thesis
      unfolding unsigned_text_def unsigned_value_def assms(1) [symmetric]
      by (auto simp add: assms(1) [symmetric])
  next
    case 3
    then have "\<not> prefixed_text 16 (CHR ''x'') (CHR ''X'') w" "\<not> prefixed_text 8 (CHR ''o'') (CHR ''O'') w"
      "prefixed_text 2 (CHR ''b'') (CHR ''B'') w
         \<longleftrightarrow> digit_groups (\<lambda>c. digit_value c < 2) (after_prefix w)"
      unfolding assms(1) pt by auto
    with 3 nd show ?thesis
      unfolding unsigned_text_def unsigned_value_def assms(1) [symmetric]
      by (auto simp add: assms(1) [symmetric])
  qed
qed

lemma int_unsigned_prefix_letter:
  assumes "prefix_letter d"
  shows "int_unsigned (CHR ''0'' # d # r) = Inr n \<longleftrightarrow>
     (if d = CHR ''x'' \<or> d = CHR ''X''
      then digit_groups (\<lambda>c. digit_value c < 16) (after_prefix (rstrip (CHR ''0'' # d # r)))
           \<and> n = digits_value 16 (digits_of (drop 2 (rstrip (CHR ''0'' # d # r))))
      else if d = CHR ''o'' \<or> d = CHR ''O''
      then digit_groups (\<lambda>c. digit_value c < 8) (after_prefix (rstrip (CHR ''0'' # d # r)))
           \<and> n = digits_value 8 (digits_of (drop 2 (rstrip (CHR ''0'' # d # r))))
      else digit_groups (\<lambda>c. digit_value c < 2) (after_prefix (rstrip (CHR ''0'' # d # r)))
           \<and> n = digits_value 2 (digits_of (drop 2 (rstrip (CHR ''0'' # d # r)))))"
proof -
  have sp: "\<not> is_space d" by (rule prefix_letter_facts(1) [OF assms])
  from assms consider "d = CHR ''x'' \<or> d = CHR ''X''" | "d = CHR ''o'' \<or> d = CHR ''O''"
    | "d = CHR ''b'' \<or> d = CHR ''B''"
    by (auto simp: prefix_letter_def)
  then show ?thesis
  proof cases
    case 1
    then have "int_base (CHR ''0'' # d # r) = (16, False)" by (auto simp: int_base_prefix)
    from int_unsigned_prefixed [OF this _ _ sp, of n] 1 show ?thesis by simp
  next
    case 2
    then have "int_base (CHR ''0'' # d # r) = (8, False)" by (auto simp: int_base_prefix)
    from int_unsigned_prefixed [OF this _ _ sp, of n] 2 show ?thesis by auto
  next
    case 3
    then have "int_base (CHR ''0'' # d # r) = (2, False)" by (auto simp: int_base_prefix)
    from int_unsigned_prefixed [OF this _ _ sp, of n] 3 show ?thesis by auto
  qed
qed

lemma int_unsigned_iff:
  "int_unsigned u = Inr n \<longleftrightarrow> unsigned_text (rstrip u) \<and> n = unsigned_value (rstrip u)"
proof -
  have px: "prefix_letter (CHR ''x'')" "prefix_letter (CHR ''X'')" "prefix_letter (CHR ''o'')"
    "prefix_letter (CHR ''O'')" "prefix_letter (CHR ''b'')" "prefix_letter (CHR ''B'')"
    by (simp_all add: prefix_letter_def)
  consider (plain) "u = [] \<or> hd u \<noteq> CHR ''0''"
    | (zero) cs where "u = CHR ''0'' # cs" and "cs = [] \<or> \<not> prefix_letter (hd cs)"
    | (prefixed) d r where "u = CHR ''0'' # d # r" and "prefix_letter d"
  proof (cases u)
    case Nil
    then show ?thesis using plain by simp
  next
    case (Cons c cs)
    show ?thesis
    proof (cases "c = CHR ''0''")
      case False
      with Cons show ?thesis using plain by simp
    next
      case True
      show ?thesis
      proof (cases "cs = [] \<or> \<not> prefix_letter (hd cs)")
        case True
        with Cons \<open>c = CHR ''0''\<close> show ?thesis using zero by simp
      next
        case False
        then obtain d r where "cs = d # r" and "prefix_letter d" by (cases cs) auto
        with Cons \<open>c = CHR ''0''\<close> show ?thesis using prefixed by simp
      qed
    qed
  qed
  then show ?thesis
  proof cases
    case plain
    then have w: "rstrip u = [] \<or> hd (rstrip u) \<noteq> CHR ''0''"
      using hd_rstrip [of u] by (auto simp: rstrip_Nil)
    show ?thesis
      unfolding int_unsigned_plain [OF plain] unsigned_text_def unsigned_value_def
      by (simp add: not_prefixed_plain [OF w])
  next
    case zero
    have w: "rstrip u = CHR ''0'' # rstrip cs"
      using zero(1) by (simp add: rstrip_Cons zero_not_space)
    have c: "rstrip cs = [] \<or> \<not> prefix_letter (hd (rstrip cs))"
      using zero(2) hd_rstrip [of cs] by (auto simp: rstrip_Nil)
    have "int_unsigned u = Inr n \<longleftrightarrow>
        decimal_text (rstrip u) \<and> n = digits_value 10 (digits_of (rstrip u))"
      unfolding zero(1) by (rule int_unsigned_zero [OF zero(2)])
    then show ?thesis
      unfolding unsigned_text_def unsigned_value_def w
      by (simp add: not_prefixed_zero [OF c] px)
  next
    case prefixed
    have sp: "\<not> is_space d" by (rule prefix_letter_facts(1) [OF prefixed(2)])
    have w: "rstrip u = CHR ''0'' # d # rstrip r"
      using prefixed(1) sp by (simp add: rstrip_Cons zero_not_space)
    show ?thesis
      unfolding unsigned_prefixed [OF w prefixed(2)]
      unfolding prefixed(1) by (rule int_unsigned_prefix_letter [OF prefixed(2)])
  qed
qed


lemma int_unsigned_text:
  "unsigned_text (rstrip u) \<Longrightarrow> int_unsigned u = Inr (unsigned_value (rstrip u))"
  by (simp add: int_unsigned_iff)

lemma int_unsigned_not_text: "\<not> unsigned_text (rstrip u) \<Longrightarrow> \<exists>e. int_unsigned u = Inl e"
  using int_unsigned_iff [of u] by (cases "int_unsigned u") auto

lemma int_literal_iff: "int_literal s = Inr i \<longleftrightarrow> int_text s \<and> i = int_text_value s"
proof -
  define s1 where "s1 = dropWhile is_space s"
  have nsp: "s1 = [] \<or> \<not> is_space (hd s1)"
    unfolding s1_def using hd_dropWhile [of is_space s] by blast
  note defs = int_literal_def int_text_def int_text_value_def lstrip_def Let_def
  consider (minus) t where "s1 = CHR ''-'' # t" | (plus) t where "s1 = CHR ''+'' # t"
    | (other) "s1 = [] \<or> (hd s1 \<noteq> CHR ''-'' \<and> hd s1 \<noteq> CHR ''+'')"
    by (cases s1) auto
  then show ?thesis
  proof cases
    case minus
    have r: "rstrip s1 = CHR ''-'' # rstrip t"
      unfolding minus by (rule rstrip_Cons) (simp add: is_space_def)
    show ?thesis
    proof (cases "unsigned_text (rstrip t)")
      case True
      from int_unsigned_text [OF this] True r show ?thesis
        unfolding defs s1_def [symmetric] by (auto simp: minus unsign_def)
    next
      case False
      from int_unsigned_not_text [OF this] False r show ?thesis
        unfolding defs s1_def [symmetric] by (auto simp: minus unsign_def)
    qed
  next
    case plus
    have r: "rstrip s1 = CHR ''+'' # rstrip t"
      unfolding plus by (rule rstrip_Cons) (simp add: is_space_def)
    show ?thesis
    proof (cases "unsigned_text (rstrip t)")
      case True
      from int_unsigned_text [OF this] True r show ?thesis
        unfolding defs s1_def [symmetric] by (auto simp: plus unsign_def)
    next
      case False
      from int_unsigned_not_text [OF this] False r show ?thesis
        unfolding defs s1_def [symmetric] by (auto simp: plus unsign_def)
    qed
  next
    case other
    then have r: "rstrip s1 = [] \<or> (hd (rstrip s1) \<noteq> CHR ''-'' \<and> hd (rstrip s1) \<noteq> CHR ''+'')"
      using hd_rstrip [of s1] by (auto simp: rstrip_Nil)
    then have u: "unsign (rstrip s1) = rstrip s1" by (auto simp: unsign_def)
    show ?thesis
    proof (cases "unsigned_text (rstrip s1)")
      case True
      from int_unsigned_text [OF this] True other r show ?thesis
        unfolding defs s1_def [symmetric] u by auto
    next
      case False
      from int_unsigned_not_text [OF this] False other r show ?thesis
        unfolding defs s1_def [symmetric] u by auto
    qed
  qed
qed

lemma int_literal_cases:
  "(int_text s \<and> int_literal s = Inr (int_text_value s))
   \<or> (\<not> int_text s \<and> (int_literal s = Inl InvalidLiteral
                          \<or> (\<exists>d>4300. int_literal s = Inl (ExceedsLimit d))))"
proof (cases "int_literal s")
  case (Inr i)
  with int_literal_iff [of s i] show ?thesis by simp
next
  case (Inl e)
  then have n: "\<not> int_text s" using int_literal_iff [of s "int_text_value s"] by simp
  show ?thesis
  proof (cases e)
    case InvalidLiteral
    with Inl n show ?thesis by simp
  next
    case (ExceedsLimit d)
    with Inl int_literal_limit [of s d] n show ?thesis by simp
  qed
qed

lemma digit_char_decimal:
  assumes "d < 10"
  shows "is_digit (digit_char d)" and "digit_value (digit_char d) = d"
    and "digit_char d = CHR ''0'' \<longleftrightarrow> d = 0"
proof -
  from assms have "d \<in> {0, 1, 2, 3, 4, 5, 6, 7, 8, 9}" by auto
  then show "is_digit (digit_char d)" and "digit_value (digit_char d) = d"
    and "digit_char d = CHR ''0'' \<longleftrightarrow> d = 0"
    by (auto simp: digit_char_def is_digit_def digit_value_def less_eq_char_def)
qed

lemma digits_value_snoc:
  "digits_value b (ds @ [c]) = digits_value b ds * b + digit_value c"
  by (simp add: digits_value_def)

lemma str_of_nat_unfold:
  "str_of_nat n = (if n < 10 then [digit_char n] else str_of_nat (n div 10) @ [digit_char (n mod 10)])"
  by (rule str_of_nat.simps)

lemma str_of_nat_nonempty: "str_of_nat n \<noteq> []"
  by (subst str_of_nat_unfold) simp

lemma str_of_nat_digits: "list_all is_digit (str_of_nat n)"
proof (induction n rule: str_of_nat.induct)
  case (1 n)
  show ?case
  proof (cases "n < 10")
    case True
    then show ?thesis by (subst str_of_nat_unfold) (simp add: digit_char_decimal)
  next
    case False
    with 1 show ?thesis by (subst str_of_nat_unfold) (simp add: digit_char_decimal)
  qed
qed

lemma str_of_nat_value: "digits_value 10 (str_of_nat n) = n"
proof (induction n rule: str_of_nat.induct)
  case (1 n)
  show ?case
  proof (cases "n < 10")
    case True
    then show ?thesis
      by (subst str_of_nat_unfold) (simp add: digits_value_def digit_char_decimal)
  next
    case False
    with 1 have "digits_value 10 (str_of_nat (n div 10)) = n div 10" by simp
    with False show ?thesis
      by (subst str_of_nat_unfold) (simp add: digits_value_snoc digit_char_decimal)
  qed
qed

lemma str_of_nat_leading_zero: "hd (str_of_nat n) = CHR ''0'' \<Longrightarrow> n = 0"
proof (induction n rule: str_of_nat.induct)
  case (1 n)
  show ?case
  proof (cases "n < 10")
    case True
    with 1(2) show ?thesis
      by (subst (asm) str_of_nat_unfold) (simp add: digit_char_decimal)
  next
    case False
    with 1(2) have "hd (str_of_nat (n div 10)) = CHR ''0''"
      by (subst (asm) str_of_nat_unfold) (simp add: str_of_nat_nonempty)
    with 1(1) False have "n div 10 = 0" by simp
    with False show ?thesis by simp
  qed
qed

lemma underscores_ok_none: "CHR ''_'' \<notin> set ds \<Longrightarrow> underscores_ok ds"
  by (induction ds rule: underscores_ok.induct) auto

lemma scan_digits_clean:
  assumes "ds \<noteq> []" and "list_all (\<lambda>c. digit_value c < b) ds" and "b \<le> 36"
    and "z \<longrightarrow> digits_value b ds = 0" and "b = 10 \<longrightarrow> length ds \<le> 4300"
  shows "scan_digits b z ds = Inr (digits_value b ds)"
proof -
  have nous: "CHR ''_'' \<notin> set ds"
  proof
    assume "CHR ''_'' \<in> set ds"
    with assms(2) have "digit_value (CHR ''_'') < b" by (auto simp: list_all_iff)
    with assms(3) show False by (simp add: digit_value_underscore)
  qed
  have q: "list_all (\<lambda>c. digit_value c < b \<or> c = CHR ''_'') ds"
    using assms(2) by (auto simp: list_all_iff)
  have fl: "digits_of ds = ds"
    using nous by (auto simp: digits_of_def filter_id_conv)
  have hd: "hd ds \<noteq> CHR ''_''" using nous assms(1) by (cases ds) auto
  from scan_digits_split [OF assms(3) q, of "[]" z] show ?thesis
    unfolding fl using assms(1,4,5) hd underscores_ok_none [OF nous] by auto
qed

lemma scan_digits_long:
  assumes "list_all is_digit ds" and "4300 < length ds"
  shows "scan_digits 10 z ds = Inl (ExceedsLimit (length ds))"
proof -
  have nous: "CHR ''_'' \<notin> set ds"
    using assms(1) by (auto simp: list_all_iff is_digit_def less_eq_char_def)
  have q: "list_all (\<lambda>c. digit_value c < 10 \<or> c = CHR ''_'') ds"
    using assms(1) by (auto simp: list_all_iff digit_value_lt10)
  have fl: "digits_of ds = ds"
    using nous by (auto simp: digits_of_def filter_id_conv)
  from assms(2) have ne: "ds \<noteq> []" by auto
  have hd: "hd ds \<noteq> CHR ''_''" using nous ne by (cases ds) auto
  from scan_digits_split [of 10 ds "[]" z, OF _ q] show ?thesis
    unfolding fl using assms(2) ne hd underscores_ok_none [OF nous] by simp
qed

lemma scan_digits_no_digit:
  assumes "s = [] \<or> \<not> digit_value (hd s) < b"
  shows "scan_digits b z s = Inl InvalidLiteral"
proof -
  define run where "run = takeWhile (\<lambda>c. digit_value c < b \<or> c = CHR ''_'') s"
  have "run = [] \<or> hd run = CHR ''_''"
    using assms by (cases s) (auto simp: run_def)
  then show ?thesis
    unfolding scan_digits_def Let_def run_def [symmetric] by auto
qed

lemma int_literal_unsigned:
  assumes "s \<noteq> []" and "\<not> is_space (hd s)" and "hd s \<noteq> CHR ''+''" and "hd s \<noteq> CHR ''-''"
  shows "int_literal s = (case int_unsigned s of Inl e \<Rightarrow> Inl e | Inr n \<Rightarrow> Inr (int n))"
proof -
  from assms(1,2) have "dropWhile is_space s = s" by (cases s) auto
  with assms show ?thesis by (simp add: int_literal_def)
qed

lemma int_base_digits:
  assumes "list_all is_digit s"
  shows "int_base s = (10, s \<noteq> [] \<and> hd s = CHR ''0'')"
proof (cases s)
  case Nil
  then show ?thesis by (simp add: int_base_def)
next
  case (Cons c cs)
  show ?thesis
  proof (cases "c = CHR ''0''")
    case False
    with Cons show ?thesis by (simp add: int_base_def)
  next
    case True
    show ?thesis
    proof (cases cs)
      case Nil
      with Cons True show ?thesis by (simp add: int_base_def)
    next
      case (Cons d ds)
      with assms \<open>s = c # cs\<close> have "is_digit d" by simp
      then have "d \<notin> {CHR ''x'', CHR ''X'', CHR ''o'', CHR ''O'', CHR ''b'', CHR ''B''}"
        by (auto simp: is_digit_def less_eq_char_def)
      with Cons True \<open>s = c # cs\<close> show ?thesis by (simp add: int_base_def)
    qed
  qed
qed

lemma int_unsigned_digits:
  assumes "ds \<noteq> []" and "list_all is_digit ds"
  shows "int_literal ds = (case scan_digits 10 (hd ds = CHR ''0'') ds of
                             Inl e \<Rightarrow> Inl e | Inr n \<Rightarrow> Inr (int n))"
proof -
  from assms have hdd: "is_digit (hd ds)" by (cases ds) auto
  then have nsp: "\<not> is_space (hd ds)" by (rule is_digit_not_space)
  from hdd have nsg: "hd ds \<noteq> CHR ''+''" "hd ds \<noteq> CHR ''-''"
    by (auto simp: is_digit_def less_eq_char_def)
  have ib: "int_base ds = (10, hd ds = CHR ''0'')"
    using int_base_digits [OF assms(2)] assms(1) by simp
  have "int_unsigned ds = scan_digits 10 (hd ds = CHR ''0'') ds"
    by (simp add: int_unsigned_def ib skip_prefix_def)
  with int_literal_unsigned [OF assms(1) nsp nsg] show ?thesis by simp
qed

lemma int_literal_decimal:
  assumes "length (str_of_nat n) \<le> 4300"
  shows "int_literal (str_of_nat n) = Inr (int n)"
proof -
  let ?s = "str_of_nat n"
  have ne: "?s \<noteq> []" by (rule str_of_nat_nonempty)
  have dig: "list_all is_digit ?s" by (rule str_of_nat_digits)
  then have lt: "list_all (\<lambda>c. digit_value c < 10) ?s" by (simp add: digit_value_lt10)
  have zero: "hd ?s = CHR ''0'' \<longrightarrow> digits_value 10 ?s = 0"
  proof
    assume "hd ?s = CHR ''0''"
    then have "n = 0" by (rule str_of_nat_leading_zero)
    then show "digits_value 10 ?s = 0" by (simp add: str_of_nat_value)
  qed
  have "scan_digits 10 (hd ?s = CHR ''0'') ?s = Inr (digits_value 10 ?s)"
    using scan_digits_clean [OF ne lt _ zero] assms by simp
  with int_unsigned_digits [OF ne dig] show ?thesis
    by (simp add: str_of_nat_value)
qed

lemma int_literal_long:
  assumes "list_all is_digit ds" and "4300 < length ds"
  shows "int_literal ds = Inl (ExceedsLimit (length ds))"
proof -
  from assms(2) have ne: "ds \<noteq> []" by auto
  from int_unsigned_digits [OF ne assms(1)] scan_digits_long [OF assms] show ?thesis by simp
qed

lemma int_literal_prefixed:
  assumes "hs \<noteq> []" and "list_all (\<lambda>c. digit_value c < b) hs"
    and "(x = CHR ''x'' \<and> b = 16) \<or> (x = CHR ''o'' \<and> b = 8)"
  shows "int_literal (CHR ''0'' # x # hs) = Inr (int (digits_value b hs))"
proof -
  from assms(3) have base: "int_base (CHR ''0'' # x # hs) = (b, False)"
    by (auto simp: int_base_def)
  from assms(3) have b: "b \<le> 36" "b \<noteq> 10" by auto
  have "hd hs \<noteq> CHR ''_''"
  proof
    assume "hd hs = CHR ''_''"
    with assms(1,2) have "digit_value (CHR ''_'') < b" by (cases hs) auto
    with b show False by (simp add: digit_value_underscore)
  qed
  with b have skip: "skip_prefix b (CHR ''0'' # x # hs) = hs"
    by (simp add: skip_prefix_def)
  have "int_unsigned (CHR ''0'' # x # hs) = Inr (digits_value b hs)"
    unfolding int_unsigned_def base fst_conv snd_conv skip
    by (rule scan_digits_clean [OF assms(1,2) b(1)]) (simp_all add: b)
  moreover have "int_literal (CHR ''0'' # x # hs)
      = (case int_unsigned (CHR ''0'' # x # hs) of Inl e \<Rightarrow> Inl e | Inr n \<Rightarrow> Inr (int n))"
    by (rule int_literal_unsigned) (simp_all add: is_space_def)
  ultimately show ?thesis by simp
qed

lemma int_unsigned_no_digit:
  assumes "\<forall>c\<in>set s. \<not> is_digit c"
  shows "int_unsigned s = Inl InvalidLiteral"
proof -
  have base: "int_base s = (10, False)"
  proof (cases s)
    case Nil
    then show ?thesis by (simp add: int_base_def)
  next
    case (Cons c cs)
    with assms have "\<not> is_digit c" by simp
    then have "c \<noteq> CHR ''0''" by (auto simp: is_digit_def less_eq_char_def)
    with Cons show ?thesis by (simp add: int_base_def)
  qed
  have "s = [] \<or> \<not> digit_value (hd s) < 10"
    using assms by (cases s) (auto simp: digit_value_lt10)
  then show ?thesis
    unfolding int_unsigned_def base fst_conv snd_conv skip_prefix_def
    by (simp add: scan_digits_no_digit)
qed

lemma int_literal_no_digit:
  assumes "list_all (\<lambda>c. \<not> is_digit c) s"
  shows "int_literal s = Inl InvalidLiteral"
proof -
  define s1 where "s1 = dropWhile is_space s"
  have "set s1 \<subseteq> set s" unfolding s1_def by (auto dest: set_dropWhileD)
  with assms have nd1: "\<forall>c\<in>set s1. \<not> is_digit c" by (auto simp: list_all_iff)
  then have nd2: "\<forall>c\<in>set (tl s1). \<not> is_digit c" by (cases s1) auto
  have e: "int_unsigned [] = Inl InvalidLiteral" by (rule int_unsigned_no_digit) simp
  show ?thesis
    unfolding int_literal_def Let_def s1_def [symmetric]
    by (simp add: e int_unsigned_no_digit [OF nd1] int_unsigned_no_digit [OF nd2])
qed

lemma py_int0_literal: "int_literal s = Inr i \<Longrightarrow> py_int0 s = Inr i"
  by (simp add: py_int0_def)

lemma py_int0_invalid:
  "int_literal s = Inl InvalidLiteral \<Longrightarrow>
     py_int0 s = Inl (ValueError (''invalid literal for int() with base 0: '' @ take 200 (py_repr s)))"
  by (simp add: py_int0_def int_error_message_def)

lemma py_int0_limit:
  "int_literal s = Inl (ExceedsLimit d) \<Longrightarrow>
     py_int0 s = Inl (ValueError
       (''Exceeds the limit (4300 digits) for integer string conversion: value has ''
        @ str_of_nat d @ '' digits; use sys.set_int_max_str_digits() to increase the limit''))"
  by (simp add: py_int0_def int_error_message_def)

lemma collect_max_connections:
  "collect_user_config_options
     (JDict [(''properties'', JDict [(''max_connections'', JDict [(''type'', JStr ''integer'')])])]) []
   = Inr [(''max_connections'', JDict [(''type'', JStr ''integer'')])]"
  by code_simp


lemma convert_integer_text:
  assumes "subscript sch ''type'' = Inr (JStr ''integer'')" and "int_text s"
  shows "convert_str_to_value pf sch s = Inr (JInt (int_text_value s))"
  using int_literal_cases [of s] assms(2)
  by (auto simp: convert_integer [OF assms(1)] py_int0_literal)

lemma convert_integer_not_text:
  assumes "subscript sch ''type'' = Inr (JStr ''integer'')" and "\<not> int_text s"
  shows "convert_str_to_value pf sch s
       = Inl (ValueError (''invalid literal for int() with base 0: '' @ take 200 (py_repr s)))
     \<or> (\<exists>d>4300. convert_str_to_value pf sch s
           = Inl (ValueError
               (''Exceeds the limit (4300 digits) for integer string conversion: value has ''
                @ str_of_nat d @ '' digits; use sys.set_int_max_str_digits() to increase the limit'')))"
proof -
  from int_literal_cases [of s] assms(2)
  consider "int_literal s = Inl InvalidLiteral" | d where "4300 < d" and "int_literal s = Inl (ExceedsLimit d)"
    by blast
  then show ?thesis
  proof cases
    case 1
    then show ?thesis by (simp add: convert_integer [OF assms(1)] py_int0_invalid)
  next
    case 2
    from py_int0_limit [OF 2(2)] have "convert_str_to_value pf sch s
           = Inl (ValueError
               (''Exceeds the limit (4300 digits) for integer string conversion: value has ''
                @ str_of_nat d @ '' digits; use sys.set_int_max_str_digits() to increase the limit''))"
      by (simp add: convert_integer [OF assms(1)])
    with 2(1) show ?thesis by blast
  qed
qed

lemma compile_max_connections:
  assumes "convert_str_to_value pf (JDict [(''type'', JStr ''integer'')]) v = Inl (ValueError m)"
  shows "create_user_config pf
          [(ty, JDict [(''user_config_schema'',
              JDict [(''properties'', JDict [(''max_connections'', JDict [(''type'', JStr ''integer'')])])])])]
          ty [''max_connections='' @ v] [''max_connections='' @ v]
        = Inl (UserError (''Invalid value '' @ py_repr (''max_connections='' @ v) @ '': '' @ m))"
proof -
  let ?S = "JDict [(''type'', JStr ''integer'')]"
  have k: "CHR ''='' \<notin> set ''max_connections''" by simp
  have l: "lookup_option [(''max_connections'', ?S)] ''max_connections'' = Some ?S"
    by (simp add: lookup_option_def truthy_opt_def)
  have "assign_one pf [(''max_connections'', ?S)] (''max_connections'' @ CHR ''='' # v) (JDict [])
      = store_option pf (''max_connections'' @ CHR ''='' # v) ''max_connections'' v ?S (JDict [])"
    by (rule assign_one_resolved [OF k l]) simp
  also have "\<dots> = Inl (UserError (''Invalid value '' @ py_repr (''max_connections'' @ CHR ''='' # v)
      @ '': '' @ m))"
    by (rule store_option_ValueError [OF assms])
  finally have "assign_all pf [(''max_connections'', ?S)] [''max_connections'' @ CHR ''='' # v] (JDict [])
      = Inl (UserError (''Invalid value '' @ py_repr (''max_connections'' @ CHR ''='' # v) @ '': '' @ m))"
    by (simp add: assign_all_def)
  then show ?thesis
    by (simp add: create_user_config_def subscript_def collect_max_connections)
qed

text \<open>
  Claim C7, as stated, fails: not every decimal value is accepted. For the schema with the one
  integer property \<^verbatim>\<open>max_connections\<close>, a value of 4301 digits \<^verbatim>\<open>9\<close> is rejected with the
  \<^verbatim>\<open>UserError\<close> for an invalid value, since \<^verbatim>\<open>int\<close> reads at most 4300 decimal digits, and so
  is the value \<^verbatim>\<open>01\<close>, since a decimal literal that starts with \<^verbatim>\<open>0\<close> must be zero.
\<close>

theorem integer_option_rejects_decimal:
  "create_user_config (\<lambda>s. Inl [])
      [(''pg'', JDict [(''user_config_schema'',
          JDict [(''properties'', JDict [(''max_connections'', JDict [(''type'', JStr ''integer'')])])])])]
      ''pg'' [''max_connections='' @ replicate 4301 (CHR ''9'')]
      [''max_connections='' @ replicate 4301 (CHR ''9'')]
     = Inl (UserError (''Invalid value '' @ py_repr (''max_connections='' @ replicate 4301 (CHR ''9''))
          @ '': Exceeds the limit (4300 digits) for integer string conversion: value has 4301 digits; ''
          @ ''use sys.set_int_max_str_digits() to increase the limit''))
   \<and> create_user_config (\<lambda>s. Inl [])
      [(''pg'', JDict [(''user_config_schema'',
          JDict [(''properties'', JDict [(''max_connections'', JDict [(''type'', JStr ''integer'')])])])])]
      ''pg'' [''max_connections=01''] [''max_connections=01'']
     = Inl (UserError (''Invalid value '' @ py_repr ''max_connections=01''
          @ '': invalid literal for int() with base 0: '' @ py_repr ''01''))"
proof
  let ?S = "JDict [(''type'', JStr ''integer'')]"
  let ?pf = "\<lambda>s::string. Inl [] :: string + string"
  define v where "v = replicate 4301 (CHR ''9'')"
  have ty: "subscript ?S ''type'' = Inr (JStr ''integer'')" by (simp add: subscript_def)
  have dig: "list_all is_digit v"
    by (simp add: v_def list_all_iff is_digit_def less_eq_char_def)
  have len: "length v = 4301" by (simp add: v_def)
  have n: "str_of_nat 4301 = ''4301''" by code_simp
  from int_literal_long [OF dig] len have "int_literal v = Inl (ExceedsLimit 4301)" by simp
  from py_int0_limit [OF this] n
  have "convert_str_to_value ?pf ?S v = Inl (ValueError
       (''Exceeds the limit (4300 digits) for integer string conversion: value has 4301 digits; ''
        @ ''use sys.set_int_max_str_digits() to increase the limit''))"
    by (simp add: convert_integer [OF ty])
  from compile_max_connections [OF this, of "''pg''"]
  show "create_user_config ?pf
      [(''pg'', JDict [(''user_config_schema'',
          JDict [(''properties'', JDict [(''max_connections'', JDict [(''type'', JStr ''integer'')])])])])]
      ''pg'' [''max_connections='' @ replicate 4301 (CHR ''9'')]
      [''max_connections='' @ replicate 4301 (CHR ''9'')]
     = Inl (UserError (''Invalid value '' @ py_repr (''max_connections='' @ replicate 4301 (CHR ''9''))
          @ '': Exceeds the limit (4300 digits) for integer string conversion: value has 4301 digits; ''
          @ ''use sys.set_int_max_str_digits() to increase the limit''))"
    unfolding v_def by simp
  show "create_user_config ?pf
      [(''pg'', JDict [(''user_config_schema'',
          JDict [(''properties'', JDict [(''max_connections'', JDict [(''type'', JStr ''integer'')])])])])]
      ''pg'' [''max_connections=01''] [''max_connections=01'']
     = Inl (UserError (''Invalid value '' @ py_repr ''max_connections=01''
          @ '': invalid literal for int() with base 0: '' @ py_repr ''01''))"
    by code_simp
qed


text \<open>
  Claim C7, amended. For an option whose type is \<^verbatim>\<open>integer\<close> the value is converted exactly
  when it is an integer literal of base 0, and then to the number it denotes: after white
  space around it and one sign are taken away, it is a decimal literal of at most 4300 digits
  that is zero if it starts with \<^verbatim>\<open>0\<close>, or \<^verbatim>\<open>0x\<close>, \<^verbatim>\<open>0o\<close> or \<^verbatim>\<open>0b\<close> followed by digits of base
  16, 8 or 2, with single underscores between digits. Every other value is rejected with a
  \<^verbatim>\<open>ValueError\<close>, whose message names the invalid literal or the number of digits above the
  limit, and the assignment fails with the \<^verbatim>\<open>UserError\<close> for an invalid value. In particular
  the decimal text of a natural number of at most 4300 digits is converted to that number,
  \<^verbatim>\<open>0x\<close> followed by hexadecimal digits and \<^verbatim>\<open>0o\<close> followed by octal digits are converted to
  the number the digits denote in base 16 and base 8, a decimal text of more than 4300
  digits is rejected, a value with no decimal digit is rejected as an invalid literal, and for
  the schema with the one integer property \<^verbatim>\<open>max_connections\<close> the assignment
  \<^verbatim>\<open>max_connections=0x10\<close> compiles to the configuration with \<^verbatim>\<open>max_connections\<close> set to 16.
\<close>

theorem integer_option_parsing:
  assumes "subscript sch ''type'' = Inr (JStr ''integer'')"
  shows "(int_text s \<longrightarrow> convert_str_to_value pf sch s = Inr (JInt (int_text_value s)))
     \<and> (\<not> int_text s \<longrightarrow>
          convert_str_to_value pf sch s
            = Inl (ValueError (''invalid literal for int() with base 0: '' @ take 200 (py_repr s)))
          \<or> (\<exists>d>4300. convert_str_to_value pf sch s
                = Inl (ValueError
                    (''Exceeds the limit (4300 digits) for integer string conversion: value has ''
                     @ str_of_nat d
                     @ '' digits; use sys.set_int_max_str_digits() to increase the limit''))))
     \<and> (\<not> int_text s \<and> CHR ''='' \<notin> set key \<and> lookup_option options key = Some sch \<and> truthy sch \<longrightarrow>
          (\<exists>m. assign_one pf options (key @ ''='' @ s) cfg
                  = Inl (UserError (''Invalid value '' @ py_repr (key @ ''='' @ s) @ '': '' @ m))))
     \<and> (length (str_of_nat n) \<le> 4300 \<longrightarrow>
          convert_str_to_value pf sch (str_of_nat n) = Inr (JInt (int n)))
     \<and> (hs \<noteq> [] \<and> list_all (\<lambda>c. digit_value c < 16) hs \<longrightarrow>
          convert_str_to_value pf sch (''0x'' @ hs) = Inr (JInt (int (digits_value 16 hs))))
     \<and> (os \<noteq> [] \<and> list_all (\<lambda>c. digit_value c < 8) os \<longrightarrow>
          convert_str_to_value pf sch (''0o'' @ os) = Inr (JInt (int (digits_value 8 os))))
     \<and> digits_value b [] = 0
     \<and> digits_value b (ds @ [c]) = digits_value b ds * b + digit_value c
     \<and> (list_all is_digit ls \<and> 4300 < length ls \<longrightarrow>
          convert_str_to_value pf sch ls
            = Inl (ValueError
                (''Exceeds the limit (4300 digits) for integer string conversion: value has ''
                 @ str_of_nat (length ls)
                 @ '' digits; use sys.set_int_max_str_digits() to increase the limit'')))
     \<and> (list_all (\<lambda>c. \<not> is_digit c) t \<and> CHR ''='' \<notin> set key \<and> lookup_option options key = Some sch
          \<and> truthy sch \<longrightarrow>
          assign_one pf options (key @ ''='' @ t) cfg
            = Inl (UserError (''Invalid value '' @ py_repr (key @ ''='' @ t)
                     @ '': invalid literal for int() with base 0: '' @ take 200 (py_repr t))))
     \<and> create_user_config pf
          [(ty, JDict [(''user_config_schema'',
              JDict [(''properties'', JDict [(''max_connections'', JDict [(''type'', JStr ''integer'')])])])])]
          ty [''max_connections=0x10''] [''max_connections=0x10'']
        = Inr (JDict [(''max_connections'', JInt 16)])"
proof (intro conjI impI)
  note conv = convert_integer [OF assms, of pf]
  {
    assume "int_text s"
    then show "convert_str_to_value pf sch s = Inr (JInt (int_text_value s))"
      by (rule convert_integer_text [OF assms])
  }
  {
    assume "\<not> int_text s"
    then show "convert_str_to_value pf sch s
            = Inl (ValueError (''invalid literal for int() with base 0: '' @ take 200 (py_repr s)))
          \<or> (\<exists>d>4300. convert_str_to_value pf sch s
                = Inl (ValueError
                    (''Exceeds the limit (4300 digits) for integer string conversion: value has ''
                     @ str_of_nat d
                     @ '' digits; use sys.set_int_max_str_digits() to increase the limit'')))"
      by (rule convert_integer_not_text [OF assms])
  }
  {
    assume a: "\<not> int_text s \<and> CHR ''='' \<notin> set key \<and> lookup_option options key = Some sch \<and> truthy sch"
    with convert_integer_not_text [OF assms, of s pf]
    obtain m where "convert_str_to_value pf sch s = Inl (ValueError m)" by blast
    then have "store_option pf (key @ CHR ''='' # s) key s sch cfg
        = Inl (UserError (''Invalid value '' @ py_repr (key @ CHR ''='' # s) @ '': '' @ m))"
      by (rule store_option_ValueError)
    with a have "assign_one pf options (key @ ''='' @ s) cfg
        = Inl (UserError (''Invalid value '' @ py_repr (key @ ''='' @ s) @ '': '' @ m))"
      by (simp add: assign_one_resolved)
    then show "\<exists>m. assign_one pf options (key @ ''='' @ s) cfg
        = Inl (UserError (''Invalid value '' @ py_repr (key @ ''='' @ s) @ '': '' @ m))"
      by blast
  }
  {
    assume "length (str_of_nat n) \<le> 4300"
    then show "convert_str_to_value pf sch (str_of_nat n) = Inr (JInt (int n))"
      by (simp add: conv py_int0_literal [OF int_literal_decimal])
  }
  {
    assume a: "hs \<noteq> [] \<and> list_all (\<lambda>c. digit_value c < 16) hs"
    then have "int_literal (CHR ''0'' # CHR ''x'' # hs) = Inr (int (digits_value 16 hs))"
      by (intro int_literal_prefixed) auto
    then show "convert_str_to_value pf sch (''0x'' @ hs) = Inr (JInt (int (digits_value 16 hs)))"
      by (simp add: conv py_int0_literal)
  }
  {
    assume a: "os \<noteq> [] \<and> list_all (\<lambda>c. digit_value c < 8) os"
    then have "int_literal (CHR ''0'' # CHR ''o'' # os) = Inr (int (digits_value 8 os))"
      by (intro int_literal_prefixed) auto
    then show "convert_str_to_value pf sch (''0o'' @ os) = Inr (JInt (int (digits_value 8 os)))"
      by (simp add: conv py_int0_literal)
  }
  show "digits_value b [] = 0" by (simp add: digits_value_def)
  show "digits_value b (ds @ [c]) = digits_value b ds * b + digit_value c"
    by (rule digits_value_snoc)
  {
    assume a: "list_all is_digit ls \<and> 4300 < length ls"
    then have "int_literal ls = Inl (ExceedsLimit (length ls))"
      by (intro int_literal_long) auto
    from py_int0_limit [OF this]
    show "convert_str_to_value pf sch ls
            = Inl (ValueError
                (''Exceeds the limit (4300 digits) for integer string conversion: value has ''
                 @ str_of_nat (length ls)
                 @ '' digits; use sys.set_int_max_str_digits() to increase the limit''))"
      by (simp add: conv)
  }
  {
    assume a: "list_all (\<lambda>c. \<not> is_digit c) t \<and> CHR ''='' \<notin> set key \<and> lookup_option options key = Some sch
          \<and> truthy sch"
    then have "int_literal t = Inl InvalidLiteral" by (simp add: int_literal_no_digit)
    then have "convert_str_to_value pf sch t
        = Inl (ValueError (''invalid literal for int() with base 0: '' @ take 200 (py_repr t)))"
      by (simp add: conv py_int0_invalid)
    then have "store_option pf (key @ CHR ''='' # t) key t sch cfg
        = Inl (UserError (''Invalid value '' @ py_repr (key @ CHR ''='' # t) @ '': ''
             @ (''invalid literal for int() with base 0: '' @ take 200 (py_repr t))))"
      by (rule store_option_ValueError)
    with a show "assign_one pf options (key @ ''='' @ t) cfg
            = Inl (UserError (''Invalid value '' @ py_repr (key @ ''='' @ t)
                     @ '': invalid literal for int() with base 0: '' @ take 200 (py_repr t)))"
      by (simp add: assign_one_resolved)
  }
  let ?S = "JDict [(''type'', JStr ''integer'')]"
  have k: "CHR ''='' \<notin> set ''max_connections''" by simp
  have l: "lookup_option [(''max_connections'', ?S)] ''max_connections'' = Some ?S"
    by (simp add: lookup_option_def truthy_opt_def)
  have "int_literal (CHR ''0'' # CHR ''x'' # ''10'') = Inr (int (digits_value 16 ''10''))"
    by (intro int_literal_prefixed) (auto simp: digit_value_def less_eq_char_def)
  moreover have "digits_value 16 ''10'' = 16"
    by (simp add: digits_value_def digit_value_def less_eq_char_def)
  ultimately have "py_int0 ''0x10'' = Inr 16" by (simp add: py_int0_literal)
  moreover have "subscript ?S ''type'' = Inr (JStr ''integer'')" by (simp add: subscript_def)
  ultimately have cv: "convert_str_to_value pf ?S ''0x10'' = Inr (JInt 16)"
    by (simp add: convert_integer)
  have sp: "set_path (str_split (CHR ''.'') ''max_connections'') (JInt 16) (JDict [])
      = Inr (JDict [(''max_connections'', JInt 16)])"
    by code_simp
  have "assign_one pf [(''max_connections'', ?S)] (''max_connections'' @ CHR ''='' # ''0x10'') (JDict [])
      = store_option pf (''max_connections'' @ CHR ''='' # ''0x10'') ''max_connections'' ''0x10'' ?S (JDict [])"
    by (rule assign_one_resolved [OF k l]) simp
  also have "\<dots> = Inr (JDict [(''max_connections'', JInt 16)])"
    unfolding store_option_def cv using sp by simp
  finally have "assign_all pf [(''max_connections'', ?S)] [''max_connections=0x10''] (JDict [])
      = Inr (JDict [(''max_connections'', JInt 16)])"
    by (simp add: assign_all_def)
  then show "create_user_config pf
          [(ty, JDict [(''user_config_schema'',
              JDict [(''properties'', JDict [(''max_connections'', JDict [(''type'', JStr ''integer'')])])])])]
          ty [''max_connections=0x10''] [''max_connections=0x10'']
        = Inr (JDict [(''max_connections'', JInt 16)])"
    by (simp add: create_user_config_def subscript_def collect_max_connections)
qed

theorem integer_option_parsing_witness:
  "convert_str_to_value (\<lambda>s. Inl []) (JDict [(''type'', JStr ''integer'')]) '' -0x_1F '' = Inr (JInt (- 31))
   \<and> (convert_str_to_value (\<lambda>s. Inl []) (JDict [(''type'', JStr ''integer'')]) ''12abc''
        = Inl (ValueError (''invalid literal for int() with base 0: '' @ py_repr ''12abc''))
      \<or> (\<exists>d>4300. convert_str_to_value (\<lambda>s. Inl []) (JDict [(''type'', JStr ''integer'')]) ''12abc''
            = Inl (ValueError
                (''Exceeds the limit (4300 digits) for integer string conversion: value has ''
                 @ str_of_nat d
                 @ '' digits; use sys.set_int_max_str_digits() to increase the limit''))))
   \<and> (\<exists>m. assign_one (\<lambda>s. Inl []) [(''n'', JDict [(''type'', JStr ''integer'')])] ''n=1.5'' (JDict [])
             = Inl (UserError (''Invalid value '' @ py_repr ''n=1.5'' @ '': '' @ m)))
   \<and> convert_str_to_value (\<lambda>s. Inl []) (JDict [(''type'', JStr ''integer'')]) ''123'' = Inr (JInt 123)
   \<and> convert_str_to_value (\<lambda>s. Inl []) (JDict [(''type'', JStr ''integer'')]) ''0x1f'' = Inr (JInt 31)
   \<and> convert_str_to_value (\<lambda>s. Inl []) (JDict [(''type'', JStr ''integer'')]) ''0o644'' = Inr (JInt 420)
   \<and> convert_str_to_value (\<lambda>s. Inl []) (JDict [(''type'', JStr ''integer'')]) (replicate 4301 (CHR ''1''))
        = Inl (ValueError
            (''Exceeds the limit (4300 digits) for integer string conversion: value has 4301 digits; ''
             @ ''use sys.set_int_max_str_digits() to increase the limit''))
   \<and> assign_one (\<lambda>s. Inl []) [(''n'', JDict [(''type'', JStr ''integer'')])] ''n=abc'' (JDict [])
       = Inl (UserError (''Invalid value '' @ py_repr ''n=abc''
                @ '': invalid literal for int() with base 0: '' @ py_repr ''abc''))
   \<and> create_user_config (\<lambda>s. Inl [])
          [(''pg'', JDict [(''user_config_schema'',
              JDict [(''properties'', JDict [(''max_connections'', JDict [(''type'', JStr ''integer'')])])])])]
          ''pg'' [''max_connections=0x10''] [''max_connections=0x10'']
        = Inr (JDict [(''max_connections'', JInt 16)])"
proof -
  let ?S = "JDict [(''type'', JStr ''integer'')]"
  let ?pf = "\<lambda>s::string. Inl [] :: string + string"
  have ty: "subscript ?S ''type'' = Inr (JStr ''integer'')" by code_simp
  note t = integer_option_parsing [OF ty, where pf = ?pf]
  have it: "int_text '' -0x_1F ''" by code_simp
  have iv: "int_text_value '' -0x_1F '' = - 31" by code_simp
  from t [where s = "'' -0x_1F ''"] it iv
  have a1: "convert_str_to_value ?pf ?S '' -0x_1F '' = Inr (JInt (- 31))" by simp
  have nt: "\<not> int_text ''12abc''" by code_simp
  have tk2: "take 200 (py_repr ''12abc'') = py_repr ''12abc''" by code_simp
  from t [where s = "''12abc''"] nt
  have "convert_str_to_value ?pf ?S ''12abc''
        = Inl (ValueError (''invalid literal for int() with base 0: '' @ take 200 (py_repr ''12abc'')))
      \<or> (\<exists>d>4300. convert_str_to_value ?pf ?S ''12abc''
            = Inl (ValueError
                (''Exceeds the limit (4300 digits) for integer string conversion: value has ''
                 @ str_of_nat d
                 @ '' digits; use sys.set_int_max_str_digits() to increase the limit'')))"
    by blast
  then have a2: "convert_str_to_value ?pf ?S ''12abc''
        = Inl (ValueError (''invalid literal for int() with base 0: '' @ py_repr ''12abc''))
      \<or> (\<exists>d>4300. convert_str_to_value ?pf ?S ''12abc''
            = Inl (ValueError
                (''Exceeds the limit (4300 digits) for integer string conversion: value has ''
                 @ str_of_nat d
                 @ '' digits; use sys.set_int_max_str_digits() to increase the limit'')))"
    unfolding tk2 .
  have nf: "\<not> int_text ''1.5''" by code_simp
  have l: "lookup_option [(''n'', ?S)] ''n'' = Some ?S" by code_simp
  from t [where s = "''1.5''" and key = "''n''" and options = "[(''n'', ?S)]" and cfg = "JDict []"] nf l
  have a3: "\<exists>m. assign_one ?pf [(''n'', ?S)] ''n=1.5'' (JDict [])
             = Inl (UserError (''Invalid value '' @ py_repr ''n=1.5'' @ '': '' @ m))"
    by simp
  have n: "str_of_nat 123 = ''123''" "length (str_of_nat 123) \<le> 4300" by code_simp+
  from t [where n = 123] n
  have a: "convert_str_to_value ?pf ?S ''123'' = Inr (JInt 123)" by simp
  have h: "''1f'' \<noteq> [] \<and> list_all (\<lambda>c. digit_value c < 16) ''1f''" by code_simp
  have hv: "digits_value 16 ''1f'' = 31" by code_simp
  from t [where hs = "''1f''"] h hv
  have b: "convert_str_to_value ?pf ?S ''0x1f'' = Inr (JInt 31)" by simp
  have p: "''644'' \<noteq> [] \<and> list_all (\<lambda>c. digit_value c < 8) ''644''" by code_simp
  have pv: "digits_value 8 ''644'' = 420" by code_simp
  from t [where os = "''644''"] p pv
  have c: "convert_str_to_value ?pf ?S ''0o644'' = Inr (JInt 420)" by simp
  define v where "v = replicate 4301 (CHR ''1'')"
  have dig: "list_all is_digit v \<and> 4300 < length v"
    by (simp add: v_def list_all_iff is_digit_def less_eq_char_def)
  have len: "length v = 4301" by (simp add: v_def)
  have n4: "str_of_nat 4301 = ''4301''" by code_simp
  from t [where ls = v] dig
  have "convert_str_to_value ?pf ?S v
        = Inl (ValueError
            (''Exceeds the limit (4300 digits) for integer string conversion: value has ''
             @ str_of_nat (length v)
             @ '' digits; use sys.set_int_max_str_digits() to increase the limit''))"
    by blast
  then have f: "convert_str_to_value ?pf ?S (replicate 4301 (CHR ''1''))
        = Inl (ValueError
            (''Exceeds the limit (4300 digits) for integer string conversion: value has 4301 digits; ''
             @ ''use sys.set_int_max_str_digits() to increase the limit''))"
    unfolding len n4 unfolding v_def by simp
  have nd: "list_all (\<lambda>c. \<not> is_digit c) ''abc''" by code_simp
  have tk: "take 200 (py_repr ''abc'') = py_repr ''abc''" by code_simp
  from t [where t = "''abc''" and key = "''n''" and options = "[(''n'', ?S)]" and cfg = "JDict []"] nd l tk
  have d: "assign_one ?pf [(''n'', ?S)] ''n=abc'' (JDict [])
       = Inl (UserError (''Invalid value '' @ py_repr ''n=abc''
                @ '': invalid literal for int() with base 0: '' @ py_repr ''abc''))"
    by simp
  from t [where ty = "''pg''"]
  have e: "create_user_config ?pf
          [(''pg'', JDict [(''user_config_schema'',
              JDict [(''properties'', JDict [(''max_connections'', JDict [(''type'', JStr ''integer'')])])])])]
          ''pg'' [''max_connections=0x10''] [''max_connections=0x10'']
        = Inr (JDict [(''max_connections'', JInt 16)])"
    by blast
  from a1 a2 a3 a b c f d e show ?thesis by blast
qed

subsection \<open>Flattening a schema\<close>

lemma fold_err_fails:
  "x \<in> set xs \<Longrightarrow> (\<And>s. \<exists>e. f x s = Inl e) \<Longrightarrow> \<exists>e. fold_err f xs s = Inl e"
proof (induction xs arbitrary: s)
  case Nil
  then show ?case by simp
next
  case (Cons y ys)
  show ?case
  proof (cases "f y s")
    case (Inl e)
    then show ?thesis by simp
  next
    case (Inr s')
    with Cons.prems(2) have "x \<noteq> y" by (metis sum.distinct(1))
    with Cons.prems(1) have "x \<in> set ys" by simp
    from Cons.IH [OF this Cons.prems(2), of s'] Inr show ?thesis by simp
  qed
qed

lemma collect_two_patterns:
  assumes "dict_get node ''patternProperties'' (JDict []) = Inr (JDict pats)" and "2 \<le> length pats"
  shows "\<exists>e. collect_user_config_options node prefix = Inl e"
proof -
  have "dict_items (JDict pats) = Inr pats" by (simp add: dict_items_def)
  moreover from assms(2) have "sorted_specs (map snd pats) = Inl TypeError"
    by (simp add: sorted_specs_def)
  ultimately show ?thesis
    using assms(1)
    by (subst collect_user_config_options.simps) (simp split: sum.splits)
qed

lemma collect_two_patterns_TypeError:
  assumes "dict_get node ''patternProperties'' (JDict []) = Inr (JDict pats)" and "2 \<le> length pats"
    and "dict_get node ''properties'' (JDict []) = Inr (JDict [])"
  shows "collect_user_config_options node prefix = Inl TypeError"
proof -
  have "dict_items (JDict pats) = Inr pats" by (simp add: dict_items_def)
  moreover from assms(2) have "sorted_specs (map snd pats) = Inl TypeError"
    by (simp add: sorted_specs_def)
  ultimately show ?thesis
    using assms(1,3)
    by (subst collect_user_config_options.simps) (simp add: dict_items_def)
qed

lemma collect_fails_below:
  assumes "visits schema node"
    and "\<And>prefix. \<exists>e. collect_user_config_options node prefix = Inl e"
  shows "\<exists>e. collect_user_config_options schema prefix = Inl e"
  using assms
proof (induction arbitrary: prefix rule: visits.induct)
  case (visits_here node)
  then show ?case by simp
next
  case (visits_property node props kvs ps target)
  have below: "\<And>p. \<exists>e. collect_user_config_options (snd ps) p = Inl e"
    using visits_property.IH visits_property.prems by blast
  let ?f = "\<lambda>ps opts.
                (case subscript (snd ps) ''type'' of
                   Inl e \<Rightarrow> Inl e
                 | Inr ty \<Rightarrow>
                     if ty = JStr ''object''
                     then (case collect_user_config_options (snd ps)
                                  (if prefix = [] then fst ps else prefix @ ''.'' @ fst ps) of
                             Inl e \<Rightarrow> Inl e
                           | Inr sub \<Rightarrow> Inr (dict_update sub opts))
                     else Inr (AList.update (if prefix = [] then fst ps else prefix @ ''.'' @ fst ps)
                                 (snd ps) opts))"
  have step: "\<exists>e. ?f ps s = Inl e" for s
    using below [of "if prefix = [] then fst ps else prefix @ ''.'' @ fst ps"]
      visits_property.hyps(4) by auto
  from visits_property.hyps(3) have "ps \<in> set (sort_key fst kvs)" by simp
  from fold_err_fails [of ps "sort_key fst kvs" ?f, OF this step]
  obtain e where "fold_err ?f (sort_key fst kvs) [] = Inl e" by blast
  with visits_property.hyps(1,2) show ?case
    by (subst collect_user_config_options.simps) simp
next
  case (visits_pattern node pats ps target)
  have below: "\<And>p. \<exists>e. collect_user_config_options (snd ps) p = Inl e"
    using visits_pattern.IH visits_pattern.prems by blast
  show ?case
  proof (cases "prefix = []")
    case True
    from below [of "''KEY''"]
    obtain e where "collect_user_config_options (snd ps) ''KEY'' = Inl e" by blast
    with visits_pattern.hyps(1,2,3) True show ?thesis
      by (subst collect_user_config_options.simps)
         (simp add: sorted_specs_def split: sum.splits)
  next
    case False
    from below [of "prefix @ ''.KEY''"]
    obtain e where "collect_user_config_options (snd ps) (prefix @ ''.KEY'') = Inl e" by blast
    with visits_pattern.hyps(1,2,3) False show ?thesis
      by (subst collect_user_config_options.simps)
         (simp add: sorted_specs_def split: sum.splits)
  qed
qed

text \<open>
  Claim C9. When a node that the flattening enters has two or more entries under
  \<^verbatim>\<open>patternProperties\<close>, \<^verbatim>\<open>collect_user_config_options\<close> raises an error and returns no
  table of options; at a node without properties the error is the \<^verbatim>\<open>TypeError\<close> of the sort.
\<close>

theorem collect_raises_on_two_pattern_properties:
  assumes "visits schema node"
    and "dict_get node ''patternProperties'' (JDict []) = Inr (JDict pats)" and "2 \<le> length pats"
  shows "(\<exists>e. collect_user_config_options schema prefix = Inl e)
       \<and> (node = schema \<and> dict_get schema ''properties'' (JDict []) = Inr (JDict []) \<longrightarrow>
            collect_user_config_options schema prefix = Inl TypeError)"
proof (intro conjI impI)
  show "\<exists>e. collect_user_config_options schema prefix = Inl e"
    by (rule collect_fails_below [OF assms(1)]) (rule collect_two_patterns [OF assms(2,3)])
next
  assume "node = schema \<and> dict_get schema ''properties'' (JDict []) = Inr (JDict [])"
  with assms(2,3) show "collect_user_config_options schema prefix = Inl TypeError"
    by (simp add: collect_two_patterns_TypeError)
qed

theorem collect_raises_on_two_pattern_properties_witness:
  "collect_user_config_options
     (JDict [(''patternProperties'',
        JDict [(''a'', JDict [(''type'', JStr ''string'')]), (''b'', JDict [(''type'', JStr ''string'')])])]) []
     = Inl TypeError
   \<and> collect_user_config_options
     (JDict [(''properties'', JDict [(''tags'', JDict [(''type'', JStr ''object''),
        (''patternProperties'',
           JDict [(''a'', JDict [(''type'', JStr ''string'')]), (''b'', JDict [(''type'', JStr ''string'')])])])])]) []
     = Inl TypeError"
proof -
  let ?P = "[(''a'', JDict [(''type'', JStr ''string'')]), (''b'', JDict [(''type'', JStr ''string'')])]"
  let ?N = "JDict [(''patternProperties'', JDict ?P)]"
  let ?M = "JDict [(''type'', JStr ''object''), (''patternProperties'', JDict ?P)]"
  let ?R = "JDict [(''properties'', JDict [(''tags'', ?M)])]"
  have g: "dict_get ?N ''patternProperties'' (JDict []) = Inr (JDict ?P)" by (simp add: dict_get_def)
  have l: "2 \<le> length ?P" by simp
  have p: "dict_get ?N ''properties'' (JDict []) = Inr (JDict [])" by (simp add: dict_get_def)
  from collect_raises_on_two_pattern_properties [OF visits_here g l, of "[]"] p
  have a: "collect_user_config_options ?N [] = Inl TypeError" by blast
  have v: "visits ?R ?M"
    by (rule visits_property [where ps = "(''tags'', ?M)" and props = "JDict [(''tags'', ?M)]"
          and kvs = "[(''tags'', ?M)]"])
       (simp_all add: dict_get_def dict_items_def subscript_def visits_here)
  have g': "dict_get ?M ''patternProperties'' (JDict []) = Inr (JDict ?P)" by (simp add: dict_get_def)
  from collect_raises_on_two_pattern_properties [OF v g' l, of "[]"]
  obtain e where e: "collect_user_config_options ?R [] = Inl e" by blast
  have "collect_user_config_options ?R [] = Inl TypeError" by code_simp
  with a show ?thesis by blast
qed

end
